theory Spec2Isabelle
  imports Main "HOL-Library.AList"
begin

section \<open>Strings\<close>

text \<open>
  A JavaScript string is modelled as a \<^typ>\<open>string\<close>, one \<^typ>\<open>char\<close> per code unit.
  The functions of the program inspect only the characters \<open>/\<close>, \<open>.\<close>, \<open>-\<close> and the classes
  \<open>a-z\<close>, \<open>0-9\<close>; case conversion is modelled on the ASCII letters and leaves every other
  character as it is.
\<close>

definition isLowerAZ :: "char \<Rightarrow> bool" where
  "isLowerAZ c = (97 \<le> (of_char c :: nat) \<and> (of_char c :: nat) \<le> 122)"

definition isUpperAZ :: "char \<Rightarrow> bool" where
  "isUpperAZ c = (65 \<le> (of_char c :: nat) \<and> (of_char c :: nat) \<le> 90)"

definition isDigit :: "char \<Rightarrow> bool" where
  "isDigit c = (48 \<le> (of_char c :: nat) \<and> (of_char c :: nat) \<le> 57)"

definition isLowerAlnum :: "char \<Rightarrow> bool" where
  "isLowerAlnum c = (isLowerAZ c \<or> isDigit c)"

definition toUpperChar :: "char \<Rightarrow> char" where
  "toUpperChar c = (if isLowerAZ c then char_of ((of_char c :: nat) - 32) else c)"

definition toLowerChar :: "char \<Rightarrow> char" where
  "toLowerChar c = (if isUpperAZ c then char_of ((of_char c :: nat) + 32) else c)"

text \<open>\<open>s.split(c)\<close> for a one-character separator: never the empty list.\<close>

fun split_on :: "char \<Rightarrow> string \<Rightarrow> string list" where
  "split_on c [] = [[]]"
| "split_on c (x # xs) =
     (if x = c then [] # split_on c xs
      else (case split_on c xs of [] \<Rightarrow> [[x]] | w # ws \<Rightarrow> (x # w) # ws))"

text \<open>\<open>s.endsWith(t)\<close> and \<open>s.startsWith(t)\<close>.\<close>

definition endsWith :: "string \<Rightarrow> string \<Rightarrow> bool" where
  "endsWith s t = (length t \<le> length s \<and> drop (length s - length t) s = t)"

definition startsWith :: "string \<Rightarrow> string \<Rightarrow> bool" where
  "startsWith s t = (take (length t) s = t)"

text \<open>
  \<open>s.lastIndexOf(t)\<close>: the largest index at which \<open>t\<close> occurs in \<open>s\<close>; the result \<open>-1\<close> of
  JavaScript is \<open>None\<close>. The search starts at \<open>length s - length t\<close> and goes down to 0.
\<close>

definition occursAt :: "string \<Rightarrow> string \<Rightarrow> nat \<Rightarrow> bool" where
  "occursAt s t i = (i + length t \<le> length s \<and> take (length t) (drop i s) = t)"

fun lastIndexFrom :: "string \<Rightarrow> string \<Rightarrow> nat \<Rightarrow> nat option" where
  "lastIndexFrom s t 0 = (if occursAt s t 0 then Some 0 else None)"
| "lastIndexFrom s t (Suc i) =
     (if occursAt s t (Suc i) then Some (Suc i) else lastIndexFrom s t i)"

definition lastIndexOf :: "string \<Rightarrow> string \<Rightarrow> nat option" where
  "lastIndexOf s t =
     (if length t \<le> length s then lastIndexFrom s t (length s - length t) else None)"

section \<open>The path functions of the platform\<close>

text \<open>
  The program calls \<open>path.basename\<close>, \<open>path.extname\<close>, \<open>path.dirname\<close>, \<open>path.join\<close> and
  \<open>path.resolve\<close> of Node.js (POSIX flavour). They are library functions; the definitions
  below state what the library computes, on path segments instead of character indices.
\<close>

definition isSlash :: "char \<Rightarrow> bool" where
  "isSlash c = (c = CHR ''/'')"

text \<open>The trailing slashes of a path.\<close>

definition trailingSlashes :: "string \<Rightarrow> string" where
  "trailingSlashes p = takeWhile isSlash (rev p)"

text \<open>The last path component: what follows the last slash once trailing slashes are gone.\<close>

definition lastSegment :: "string \<Rightarrow> string" where
  "lastSegment p = rev (takeWhile (\<lambda>c. \<not> isSlash c) (dropWhile isSlash (rev p)))"

text \<open>
  \<open>path.extname(p)\<close>: from the last dot of the last component to its end; empty when that
  component has no dot, when its only dot is its first character, and when it is \<open>..\<close>.
\<close>

definition extname :: "string \<Rightarrow> string" where
  "extname p =
     (let seg = lastSegment p;
          after = rev (takeWhile (\<lambda>c. c \<noteq> CHR ''.'') (rev seg))
      in if CHR ''.'' \<notin> set seg \<or> Suc (length after) = length seg \<or> seg = ''..''
         then [] else CHR ''.'' # after)"

text \<open>
  \<open>path.basename(p)\<close> is the last component. \<open>path.basename(p, suffix)\<close> compares the suffix
  with the end of the last component, character by character from the right:
  a proper suffix of the component is cut off; a suffix equal to the whole path gives the
  empty string; a component that is itself a proper end of the suffix is returned together
  with the trailing slashes of the path; in every other case the component is returned whole.
\<close>

definition basename :: "string \<Rightarrow> string" where
  "basename p = lastSegment p"

definition basenameExt :: "string \<Rightarrow> string \<Rightarrow> string" where
  "basenameExt p suffix =
     (if suffix \<noteq> [] \<and> length suffix \<le> length p then
        (if suffix = p then []
         else let seg = lastSegment p in
           if length suffix < length seg \<and> endsWith seg suffix
             then take (length seg - length suffix) seg
           else if length seg < length suffix \<and> endsWith suffix seg
             then seg @ trailingSlashes p
           else seg)
      else lastSegment p)"

text \<open>
  \<open>path.dirname(p)\<close>: the characters before the slash that precedes the last component;
  the first character of the path is never looked at as that slash.
\<close>

definition dirname :: "string \<Rightarrow> string" where
  "dirname p =
     (if p = [] then ''.''
      else let hasRoot = isSlash (hd p);
               body = dropWhile isSlash (rev (tl p));
               dir = dropWhile (\<lambda>c. \<not> isSlash c) body
           in if dir = [] then (if hasRoot then ''/'' else ''.'')
              else if hasRoot \<and> length dir = 1 then ''//''
              else take (length dir) p)"

text \<open>
  The normalisation shared by \<open>path.join\<close> and \<open>path.resolve\<close>: empty components and \<open>.\<close>
  are dropped, \<open>..\<close> removes the component before it; at the top, \<open>..\<close> is kept when the
  path is relative (\<open>allowAboveRoot\<close>) and dropped when it is absolute.
  The stack holds the components seen so far, the last one first.
\<close>

fun normalizeSegments :: "bool \<Rightarrow> string list \<Rightarrow> string list \<Rightarrow> string list" where
  "normalizeSegments allowAboveRoot stack [] = rev stack"
| "normalizeSegments allowAboveRoot stack (seg # segs) =
     (if seg = [] \<or> seg = ''.'' then normalizeSegments allowAboveRoot stack segs
      else if seg = ''..'' then
        (case stack of
           tp # below \<Rightarrow>
             if tp = ''..'' then normalizeSegments allowAboveRoot (''..'' # stack) segs
             else normalizeSegments allowAboveRoot below segs
         | [] \<Rightarrow>
             if allowAboveRoot then normalizeSegments allowAboveRoot [''..''] segs
             else normalizeSegments allowAboveRoot [] segs)
      else normalizeSegments allowAboveRoot (seg # stack) segs)"

fun joinWith :: "string \<Rightarrow> string list \<Rightarrow> string" where
  "joinWith sep [] = []"
| "joinWith sep [x] = x"
| "joinWith sep (x # y # ys) = x @ sep @ joinWith sep (y # ys)"

definition normalizeString :: "string \<Rightarrow> bool \<Rightarrow> string" where
  "normalizeString p allowAboveRoot =
     joinWith ''/'' (normalizeSegments allowAboveRoot [] (split_on CHR ''/'' p))"

definition normalizePath :: "string \<Rightarrow> string" where
  "normalizePath p =
     (if p = [] then ''.''
      else let isAbsolute = isSlash (hd p);
               trailingSeparator = isSlash (last p);
               n = normalizeString p (\<not> isAbsolute)
           in if n = [] then (if isAbsolute then ''/'' else if trailingSeparator then ''./'' else ''.'')
              else (if isAbsolute then ''/'' else []) @ n @ (if trailingSeparator then ''/'' else []))"

text \<open>\<open>path.join(...args)\<close>: the non-empty arguments joined by \<open>/\<close>, normalised.\<close>

definition join :: "string list \<Rightarrow> string" where
  "join args =
     (let parts = filter (\<lambda>a. a \<noteq> []) args
      in if parts = [] then ''.'' else normalizePath (joinWith ''/'' parts))"

text \<open>
  \<open>path.resolve(...args)\<close>: the arguments are prepended from the right until one of them is
  absolute, the working directory \<open>cwd\<close> of the process being the last resort; empty
  arguments are skipped. The list given to \<open>resolveLoop\<close> is the arguments from the last
  to the first, followed by \<open>cwd\<close>.
\<close>

fun resolveLoop :: "string list \<Rightarrow> string \<Rightarrow> bool \<times> string" where
  "resolveLoop [] resolvedPath = (False, resolvedPath)"
| "resolveLoop (p # ps) resolvedPath =
     (if p = [] then resolveLoop ps resolvedPath
      else if isSlash (hd p) then (True, p @ ''/'' @ resolvedPath)
      else resolveLoop ps (p @ ''/'' @ resolvedPath))"

definition resolve :: "string \<Rightarrow> string list \<Rightarrow> string" where
  "resolve cwd args =
     (case resolveLoop (rev args @ [cwd]) [] of
        (resolvedAbsolute, resolvedPath) \<Rightarrow>
          let n = normalizeString resolvedPath (\<not> resolvedAbsolute)
          in if resolvedAbsolute then CHR ''/'' # n
             else if n \<noteq> [] then n else ''.'')"

section \<open>Naming transform (utils/naming.ts)\<close>

text \<open>\<open>word.charAt(0).toUpperCase() + word.slice(1).toLowerCase()\<close>\<close>

fun capitalize :: "string \<Rightarrow> string" where
  "capitalize [] = []"
| "capitalize (c # cs) = toUpperChar c # map toLowerChar cs"

text \<open>\<open>baseName.split('-').map(...).join('')\<close>\<close>

definition pascalName :: "string \<Rightarrow> string" where
  "pascalName baseName = concat (map capitalize (split_on CHR ''-'' baseName))"

definition toPascalCase :: "string \<Rightarrow> string" where
  "toPascalCase kebabName =
     (let ext = extname kebabName;
          baseName = basenameExt kebabName ext
      in pascalName baseName @ ext)"

text \<open>
  The regular expression \<open>/^[a-z][a-z0-9]*(-[a-z0-9]+)+$/\<close>. The character classes
  exclude the hyphen, so a match is decided by one pass from left to right:
  \<open>kebabHead\<close> reads \<open>[a-z0-9]*\<close> and then needs a group, \<open>kebabGroup\<close> stands right after a
  hyphen and needs one more character of the class, \<open>kebabWord\<close> reads the rest of a
  group and accepts the end of the string.
\<close>

fun kebabWord :: "string \<Rightarrow> bool" and kebabGroup :: "string \<Rightarrow> bool" where
  "kebabWord [] = True"
| "kebabWord (c # cs) =
     (if isLowerAlnum c then kebabWord cs else if c = CHR ''-'' then kebabGroup cs else False)"
| "kebabGroup [] = False"
| "kebabGroup (c # cs) = (isLowerAlnum c \<and> kebabWord cs)"

fun kebabHead :: "string \<Rightarrow> bool" where
  "kebabHead [] = False"
| "kebabHead (c # cs) =
     (if isLowerAlnum c then kebabHead cs else if c = CHR ''-'' then kebabGroup cs else False)"

fun kebabRegex :: "string \<Rightarrow> bool" where
  "kebabRegex [] = False"
| "kebabRegex (c # cs) = (isLowerAZ c \<and> kebabHead cs)"

definition isKebabCase :: "string \<Rightarrow> bool" where
  "isKebabCase filename = kebabRegex (basenameExt filename (extname filename))"

section \<open>Reference matching and rewriting (utils/imports.ts)\<close>

record RenameMapping =
  oldPath :: string
  newPath :: string
  oldName :: string
  newName :: string

record ImportUpdate =
  file' :: string
  oldImport :: string
  newImport :: string
  line :: nat

text \<open>
  \<open>PathAliases\<close> is an object from alias to directory; the program reads it through
  \<open>Object.entries\<close>, so it is modelled as the list of its entries in that order.
\<close>

type_synonym PathAliases = "(string \<times> string) list"

definition DEFAULT_ALIASES :: PathAliases where
  "DEFAULT_ALIASES = [(''@'', ''src''), (''~'', ''src'')]"

text \<open>
  \<open>resolveAliasImport\<close>: the first alias whose prefix the specifier starts with, or that the
  specifier equals, decides; \<open>null\<close> is \<open>None\<close>. The argument \<open>cwd\<close> is the working
  directory that \<open>path.resolve\<close> falls back to.
\<close>

definition aliasPrefix :: "string \<Rightarrow> string" where
  "aliasPrefix alias = (if endsWith alias ''/'' then alias else alias @ ''/'')"

fun resolveAliasImport :: "string \<Rightarrow> string \<Rightarrow> PathAliases \<Rightarrow> string \<Rightarrow> string option" where
  "resolveAliasImport cwd moduleSpecifier [] projectRoot = None"
| "resolveAliasImport cwd moduleSpecifier ((alias, aliasPath) # rest) projectRoot =
     (if startsWith moduleSpecifier (aliasPrefix alias) \<or> moduleSpecifier = alias then
        (let relativePath =
               (if startsWith moduleSpecifier (aliasPrefix alias)
                then drop (length (aliasPrefix alias)) moduleSpecifier else [])
         in Some (resolve cwd [projectRoot, aliasPath, relativePath]))
      else resolveAliasImport cwd moduleSpecifier rest projectRoot)"

text \<open>
  \<open>matchesImport\<close>. The test \<open>if (aliasResolved)\<close> is a truthiness test: it fails for \<open>null\<close>
  and for the empty string.
\<close>

definition matchesImport ::
  "string \<Rightarrow> string \<Rightarrow> string \<Rightarrow> RenameMapping \<Rightarrow> PathAliases \<Rightarrow> string \<Rightarrow> bool" where
  "matchesImport cwd importingFile moduleSpecifier mapping aliases projectRoot =
     (if \<not> endsWith moduleSpecifier (''/'' @ oldName mapping)
         \<and> moduleSpecifier \<noteq> ''./'' @ oldName mapping
         \<and> moduleSpecifier \<noteq> oldName mapping
      then False
      else
        (case resolveAliasImport cwd moduleSpecifier aliases projectRoot of
           Some aliasResolved \<Rightarrow>
             if aliasResolved \<noteq> [] then aliasResolved = oldPath mapping
             else if startsWith moduleSpecifier ''.''
               then resolve cwd [dirname importingFile, moduleSpecifier] = oldPath mapping
             else False
         | None \<Rightarrow>
             if startsWith moduleSpecifier ''.''
               then resolve cwd [dirname importingFile, moduleSpecifier] = oldPath mapping
             else False))"

text \<open>
  Two notions of the statements below, not of the program: the textual test that
  \<open>matchesImport\<close> starts with, and the absolute path that a specifier resolves to
  (under the first alias that applies, else relative to the directory of the importing
  file, else not at all).
\<close>

definition nameFilter :: "string \<Rightarrow> string \<Rightarrow> bool" where
  "nameFilter moduleSpecifier name =
     (endsWith moduleSpecifier (''/'' @ name) \<or> moduleSpecifier = ''./'' @ name
      \<or> moduleSpecifier = name)"

definition resolvedTarget :: "string \<Rightarrow> string \<Rightarrow> string \<Rightarrow> PathAliases \<Rightarrow> string \<Rightarrow> string option" where
  "resolvedTarget cwd importingFile moduleSpecifier aliases projectRoot =
     (let relative =
            (if startsWith moduleSpecifier ''.''
             then Some (resolve cwd [dirname importingFile, moduleSpecifier]) else None)
      in case resolveAliasImport cwd moduleSpecifier aliases projectRoot of
           Some aliasResolved \<Rightarrow> if aliasResolved \<noteq> [] then Some aliasResolved else relative
         | None \<Rightarrow> relative)"


definition replaceImportPath :: "string \<Rightarrow> string \<Rightarrow> string \<Rightarrow> string" where
  "replaceImportPath moduleSpecifier oldName' newName' =
     (case lastIndexOf moduleSpecifier oldName' of
        Some lastIndex \<Rightarrow>
          take lastIndex moduleSpecifier @ newName'
            @ drop (lastIndex + length oldName') moduleSpecifier
      | None \<Rightarrow> moduleSpecifier)"

text \<open>
  The source files of a ts-morph \<open>Project\<close>, as far as the program looks at them: the import
  declarations (module specifier value, start line), the call expressions (text of the
  callee, texts of the arguments, start line) and the export declarations (module
  specifier value if there is one, start line). Each of these nodes is read and rewritten
  on its own. A project holds one source file per path.
\<close>

record CallExpression =
  expression :: string
  arguments :: "string list"
  startLine :: nat

record FileContent =
  importDeclarations :: "(string \<times> nat) list"
  callExpressions :: "CallExpression list"
  exportDeclarations :: "(string option \<times> nat) list"

type_synonym SourceFile = "string \<times> FileContent"

type_synonym Project = "SourceFile list"

definition getSourceFile :: "Project \<Rightarrow> string \<Rightarrow> FileContent option" where
  "getSourceFile project path = map_of project path"

text \<open>\<open>argText.slice(1, -1)\<close>\<close>

definition slice1 :: "string \<Rightarrow> string" where
  "slice1 argText = butlast (tl argText)"

text \<open>The loop over the mappings, which is the same for the three kinds of reference.\<close>

definition updatesFor ::
  "string \<Rightarrow> string \<Rightarrow> string \<Rightarrow> nat \<Rightarrow> RenameMapping list \<Rightarrow> PathAliases \<Rightarrow> string
     \<Rightarrow> ImportUpdate list" where
  "updatesFor cwd filePath moduleSpecifier ln mappings aliases projectRoot =
     map (\<lambda>mapping.
            \<lparr>file' = filePath, oldImport = moduleSpecifier,
             newImport = replaceImportPath moduleSpecifier (oldName mapping) (newName mapping),
             line = ln\<rparr>)
         (filter (\<lambda>mapping. matchesImport cwd filePath moduleSpecifier mapping aliases projectRoot)
            mappings)"

definition dynamicImportUpdates ::
  "string \<Rightarrow> string \<Rightarrow> CallExpression \<Rightarrow> RenameMapping list \<Rightarrow> PathAliases \<Rightarrow> string
     \<Rightarrow> ImportUpdate list" where
  "dynamicImportUpdates cwd filePath callExpr mappings aliases projectRoot =
     (if expression callExpr = ''import'' then
        (case arguments callExpr of
           [] \<Rightarrow> []
         | argText # _ \<Rightarrow>
             updatesFor cwd filePath (slice1 argText) (startLine callExpr) mappings aliases projectRoot)
      else [])"

text \<open>\<open>if (moduleSpecifier)\<close> on an export declaration: neither undefined nor empty.\<close>

definition exportUpdates ::
  "string \<Rightarrow> string \<Rightarrow> string option \<times> nat \<Rightarrow> RenameMapping list \<Rightarrow> PathAliases \<Rightarrow> string
     \<Rightarrow> ImportUpdate list" where
  "exportUpdates cwd filePath exportDecl mappings aliases projectRoot =
     (case fst exportDecl of
        None \<Rightarrow> []
      | Some moduleSpecifier \<Rightarrow>
          if moduleSpecifier \<noteq> []
          then updatesFor cwd filePath moduleSpecifier (snd exportDecl) mappings aliases projectRoot
          else [])"

definition fileImportUpdates ::
  "string \<Rightarrow> SourceFile \<Rightarrow> RenameMapping list \<Rightarrow> PathAliases \<Rightarrow> string \<Rightarrow> ImportUpdate list" where
  "fileImportUpdates cwd sourceFile mappings aliases projectRoot =
     (let filePath = fst sourceFile; c = snd sourceFile in
        concat (map (\<lambda>importDecl.
                  updatesFor cwd filePath (fst importDecl) (snd importDecl) mappings aliases projectRoot)
               (importDeclarations c))
        @ concat (map (\<lambda>callExpr.
                  dynamicImportUpdates cwd filePath callExpr mappings aliases projectRoot)
               (callExpressions c))
        @ concat (map (\<lambda>exportDecl.
                  exportUpdates cwd filePath exportDecl mappings aliases projectRoot)
               (exportDeclarations c)))"

text \<open>
  \<open>findImportUpdates\<close>; the options default to \<open>DEFAULT_ALIASES\<close> and to the working
  directory of the process, which is \<open>cwd\<close> here.
\<close>

definition findImportUpdates ::
  "string \<Rightarrow> Project \<Rightarrow> RenameMapping list \<Rightarrow> PathAliases option \<Rightarrow> string option
     \<Rightarrow> ImportUpdate list" where
  "findImportUpdates cwd project mappings aliasesOpt projectRootOpt =
     (let aliases = (case aliasesOpt of None \<Rightarrow> DEFAULT_ALIASES | Some a \<Rightarrow> a);
          projectRoot = (case projectRootOpt of None \<Rightarrow> cwd | Some r \<Rightarrow> r)
      in concat (map (\<lambda>sourceFile. fileImportUpdates cwd sourceFile mappings aliases projectRoot)
                   project))"

text \<open>
  \<open>applyImportUpdates\<close>. The updates are grouped by file in a \<open>Map\<close>, which keeps the order
  of first insertion; then every group rewrites its source file.
\<close>

fun groupByFile ::
  "(string \<times> ImportUpdate list) list \<Rightarrow> ImportUpdate list \<Rightarrow> (string \<times> ImportUpdate list) list" where
  "groupByFile updatesByFile [] = updatesByFile"
| "groupByFile updatesByFile (update # rest) =
     (case map_of updatesByFile (file' update) of
        None \<Rightarrow> groupByFile (updatesByFile @ [(file' update, [update])]) rest
      | Some existing \<Rightarrow>
          groupByFile (AList.update (file' update) (existing @ [update]) updatesByFile) rest)"

definition findUpdate :: "ImportUpdate list \<Rightarrow> string \<Rightarrow> ImportUpdate option" where
  "findUpdate fileUpdates moduleSpecifier =
     find (\<lambda>u. oldImport u = moduleSpecifier) fileUpdates"

definition applyToImport :: "ImportUpdate list \<Rightarrow> string \<times> nat \<Rightarrow> string \<times> nat" where
  "applyToImport fileUpdates importDecl =
     (case findUpdate fileUpdates (fst importDecl) of
        Some update \<Rightarrow> (newImport update, snd importDecl)
      | None \<Rightarrow> importDecl)"

text \<open>
  \<open>argText[0]\<close> is the quote character; on an empty text it would be \<open>undefined\<close>, which
  the template literal prints as such.
\<close>

definition quoteChar :: "string \<Rightarrow> string" where
  "quoteChar argText = (case argText of [] \<Rightarrow> ''undefined'' | c # _ \<Rightarrow> [c])"

definition applyToCall :: "ImportUpdate list \<Rightarrow> CallExpression \<Rightarrow> CallExpression" where
  "applyToCall fileUpdates callExpr =
     (if expression callExpr = ''import'' then
        (case arguments callExpr of
           [] \<Rightarrow> callExpr
         | argText # args \<Rightarrow>
             (case findUpdate fileUpdates (slice1 argText) of
                Some update \<Rightarrow>
                  callExpr\<lparr>arguments :=
                    (quoteChar argText @ newImport update @ quoteChar argText) # args\<rparr>
              | None \<Rightarrow> callExpr))
      else callExpr)"

definition applyToExport ::
  "ImportUpdate list \<Rightarrow> string option \<times> nat \<Rightarrow> string option \<times> nat" where
  "applyToExport fileUpdates exportDecl =
     (case fst exportDecl of
        None \<Rightarrow> exportDecl
      | Some moduleSpecifier \<Rightarrow>
          if moduleSpecifier \<noteq> [] then
            (case findUpdate fileUpdates moduleSpecifier of
               Some update \<Rightarrow> (Some (newImport update), snd exportDecl)
             | None \<Rightarrow> exportDecl)
          else exportDecl)"

definition applyFileUpdates :: "ImportUpdate list \<Rightarrow> FileContent \<Rightarrow> FileContent" where
  "applyFileUpdates fileUpdates c =
     \<lparr>importDeclarations = map (applyToImport fileUpdates) (importDeclarations c),
      callExpressions = map (applyToCall fileUpdates) (callExpressions c),
      exportDeclarations = map (applyToExport fileUpdates) (exportDeclarations c)\<rparr>"

fun applyGroups :: "Project \<Rightarrow> (string \<times> ImportUpdate list) list \<Rightarrow> Project" where
  "applyGroups project [] = project"
| "applyGroups project ((filePath, fileUpdates) # groups) =
     (case getSourceFile project filePath of
        None \<Rightarrow> applyGroups project groups
      | Some sourceFile \<Rightarrow>
          applyGroups (AList.update filePath (applyFileUpdates fileUpdates sourceFile) project) groups)"

definition applyImportUpdates :: "Project \<Rightarrow> ImportUpdate list \<Rightarrow> Project" where
  "applyImportUpdates project updates = applyGroups project (groupByFile [] updates)"

section \<open>Rename plan and orchestration (index.ts, commands/rename-diff.ts)\<close>

text \<open>
  The disk maps a path to the content of the file there. What the program leaves to other
  packages is a parameter: the working directory of the process, \<open>glob\<close> (pattern,
  directory, ignore patterns), the two ways of moving a file (\<open>git mv\<close> and
  \<open>fs.renameSync\<close>, which fail with \<open>None\<close>), the line count and size of a file, and
  the alias table that \<open>loadViteAliases\<close> finds in the build configuration (\<open>null\<close> is
  \<open>None\<close>). All of them read the disk; only the two moves change it.
\<close>

type_synonym Disk = "string \<Rightarrow> FileContent option"

record Env =
  processCwd :: string
  glob :: "string \<Rightarrow> string \<Rightarrow> string list \<Rightarrow> Disk \<Rightarrow> string list"
  gitMv :: "string \<Rightarrow> string \<Rightarrow> Disk \<Rightarrow> Disk option"
  renameSync :: "string \<Rightarrow> string \<Rightarrow> Disk \<Rightarrow> Disk option"
  countLines :: "FileContent \<Rightarrow> nat"
  byteSize :: "FileContent \<Rightarrow> nat"
  loadViteAliases :: "string \<Rightarrow> Disk \<Rightarrow> PathAliases option"

definition DEFAULT_EXTENSIONS :: "string list" where
  "DEFAULT_EXTENSIONS = [''ts'', ''vue'', ''tsx'', ''js'', ''jsx'']"

definition DEFAULT_IGNORE :: "string list" where
  "DEFAULT_IGNORE = [''**/node_modules/**'', ''**/dist/**'', ''**/.git/**'']"

record FileStats = RenameMapping +
  lines :: nat
  size' :: nat

record Summary =
  totalFiles :: nat
  totalLines :: nat
  totalSize :: nat
  totalImports :: nat

record RenameResult =
  mappings :: "RenameMapping list"
  fileStats :: "FileStats list"
  importUpdates :: "ImportUpdate list"
  summary :: Summary
  wasDryRun :: bool

record RenameOptions =
  targetDir :: string
  cwd :: "string option"
  importScanDir :: "string option"
  extensions :: "string list option"
  ignore :: "string list option"
  dryRun :: "bool option"
  useGitMv :: "bool option"
  aliases :: "PathAliases option"
  autoDetectAliases :: "bool option"

datatype error = MoveFailed string string

text \<open>
  \<open>getProjectAliases\<close> (utils/vite-config.ts): the aliases of the build configuration merged
  over the defaults, \<open>{ ...defaultAliases, ...viteAliases }\<close>; the defaults alone when
  there are none.
\<close>

definition spread :: "PathAliases \<Rightarrow> PathAliases \<Rightarrow> PathAliases" where
  "spread defaultAliases viteAliases =
     map (\<lambda>(k, v). (k, case map_of viteAliases k of None \<Rightarrow> v | Some v' \<Rightarrow> v')) defaultAliases
     @ filter (\<lambda>(k, v). map_of defaultAliases k = None) viteAliases"

definition getProjectAliases :: "Env \<Rightarrow> string \<Rightarrow> PathAliases \<Rightarrow> Disk \<Rightarrow> PathAliases" where
  "getProjectAliases env projectRoot defaultAliases disk =
     (case loadViteAliases env projectRoot disk of
        Some viteAliases \<Rightarrow> spread defaultAliases viteAliases
      | None \<Rightarrow> defaultAliases)"

text \<open>The loop that both plan builders run over their candidate files.\<close>

definition mappingOf :: "string \<Rightarrow> RenameMapping" where
  "mappingOf filePath =
     (let fileName = basename filePath;
          newName = toPascalCase fileName;
          newPath = join [dirname filePath, newName]
      in \<lparr>oldPath = filePath, newPath = newPath, oldName = fileName, newName = newName\<rparr>)"

fun kebabMappings :: "string list \<Rightarrow> RenameMapping list" where
  "kebabMappings [] = []"
| "kebabMappings (filePath # rest) =
     (if isKebabCase (basename filePath) then mappingOf filePath # kebabMappings rest
      else kebabMappings rest)"

definition findKebabCaseFiles ::
  "Env \<Rightarrow> Disk \<Rightarrow> string \<Rightarrow> string option \<Rightarrow> string list option \<Rightarrow> RenameMapping list" where
  "findKebabCaseFiles env disk targetDir' cwdOpt ignoreOpt =
     (let cwd' = (case cwdOpt of None \<Rightarrow> processCwd env | Some c \<Rightarrow> c);
          ignore' = (case ignoreOpt of None \<Rightarrow> DEFAULT_IGNORE | Some i \<Rightarrow> i);
          absoluteTargetDir = resolve (processCwd env) [cwd', targetDir'];
          vueFiles = glob env ''**/*.vue'' absoluteTargetDir ignore' disk
      in kebabMappings vueFiles)"

text \<open>\<open>createMappingsFromFiles\<close> skips the files that are not on the disk.\<close>

definition createMappingsFromFiles :: "Disk \<Rightarrow> string list \<Rightarrow> RenameMapping list" where
  "createMappingsFromFiles disk files =
     kebabMappings (filter (\<lambda>filePath. disk filePath \<noteq> None) files)"

definition countFileLines :: "Env \<Rightarrow> Disk \<Rightarrow> string \<Rightarrow> nat" where
  "countFileLines env disk filePath =
     (case disk filePath of None \<Rightarrow> 0 | Some c \<Rightarrow> countLines env c)"

definition getFileSize :: "Env \<Rightarrow> Disk \<Rightarrow> string \<Rightarrow> nat" where
  "getFileSize env disk filePath =
     (case disk filePath of None \<Rightarrow> 0 | Some c \<Rightarrow> byteSize env c)"

definition collectFileStats :: "Env \<Rightarrow> Disk \<Rightarrow> RenameMapping list \<Rightarrow> FileStats list" where
  "collectFileStats env disk ms =
     map (\<lambda>mapping.
            \<lparr>oldPath = oldPath mapping, newPath = newPath mapping,
             oldName = oldName mapping, newName = newName mapping,
             lines = countFileLines env disk (oldPath mapping),
             size' = getFileSize env disk (oldPath mapping)\<rparr>) ms"

text \<open>
  \<open>loadProject\<close>: a file that cannot be added is skipped; adding a path that the project
  already holds gives the source file that is there. The project lists its source files
  in the order in which they were added; the order in which ts-morph lists them decides
  only the order of the updates that \<open>findImportUpdates\<close> returns.
\<close>

fun addSourceFiles :: "Disk \<Rightarrow> Project \<Rightarrow> string list \<Rightarrow> Project" where
  "addSourceFiles disk project [] = project"
| "addSourceFiles disk project (f # fs) =
     (case disk f of
        None \<Rightarrow> addSourceFiles disk project fs
      | Some c \<Rightarrow>
          if map_of project f \<noteq> None then addSourceFiles disk project fs
          else addSourceFiles disk (project @ [(f, c)]) fs)"

definition loadProject :: "Env \<Rightarrow> Disk \<Rightarrow> string \<Rightarrow> string list \<Rightarrow> string list \<Rightarrow> Project" where
  "loadProject env disk scanDir exts ignore' =
     (let sourceFiles = glob env (''**/*.{'' @ joinWith '','' exts @ ''}'') scanDir ignore' disk
      in addSourceFiles disk [] sourceFiles)"

text \<open>\<open>project.save()\<close> writes the text of the source files to their paths.\<close>

fun saveProject :: "Project \<Rightarrow> Disk \<Rightarrow> Disk" where
  "saveProject [] disk = disk"
| "saveProject ((filePath, c) # rest) disk = saveProject rest (disk(filePath \<mapsto> c))"

text \<open>\<open>renameFile\<close>: \<open>git mv\<close> first when asked for, \<open>fs.renameSync\<close> when that fails.\<close>

definition renameFile :: "Env \<Rightarrow> string \<Rightarrow> string \<Rightarrow> bool \<Rightarrow> Disk \<Rightarrow> error + Disk" where
  "renameFile env old new useGit disk =
     (case (if useGit then gitMv env old new disk else None) of
        Some disk' \<Rightarrow> Inr disk'
      | None \<Rightarrow>
          (case renameSync env old new disk of
             Some disk' \<Rightarrow> Inr disk'
           | None \<Rightarrow> Inl (MoveFailed old new)))"

text \<open>
  The loop over the mappings of \<open>renameVueFiles\<close>: an exception of \<open>renameFile\<close> ends the
  run, with the disk as the moves before it left it.
\<close>

fun renameAll :: "Env \<Rightarrow> bool \<Rightarrow> RenameMapping list \<Rightarrow> Disk \<Rightarrow> Disk \<times> error option" where
  "renameAll env useGit [] disk = (disk, None)"
| "renameAll env useGit (mapping # rest) disk =
     (case renameFile env (oldPath mapping) (newPath mapping) useGit disk of
        Inl e \<Rightarrow> (disk, Some e)
      | Inr disk' \<Rightarrow> renameAll env useGit rest disk')"

text \<open>
  \<open>renameVueFiles\<close> returns the disk it leaves and either the result or the exception that
  rejected the promise. The progress callback is taken to have no effect on the disk.
\<close>

definition renameVueFiles :: "Env \<Rightarrow> RenameOptions \<Rightarrow> Disk \<Rightarrow> Disk \<times> (error + RenameResult)" where
  "renameVueFiles env options disk =
     (let cwd' = (case cwd options of None \<Rightarrow> processCwd env | Some c \<Rightarrow> c);
          exts = (case extensions options of None \<Rightarrow> DEFAULT_EXTENSIONS | Some e \<Rightarrow> e);
          ignore' = (case ignore options of None \<Rightarrow> DEFAULT_IGNORE | Some i \<Rightarrow> i);
          dry = (case dryRun options of None \<Rightarrow> False | Some d \<Rightarrow> d);
          useGit = (case useGitMv options of None \<Rightarrow> True | Some g \<Rightarrow> g);
          autoDetect = (case autoDetectAliases options of None \<Rightarrow> True | Some a \<Rightarrow> a);
          absoluteTargetDir = resolve (processCwd env) [cwd', targetDir options];
          absoluteScanDir =
            (case importScanDir options of
               None \<Rightarrow> absoluteTargetDir
             | Some d \<Rightarrow> if d \<noteq> [] then resolve (processCwd env) [cwd', d] else absoluteTargetDir);
          projectRoot = cwd';
          aliases' =
            (case aliases options of
               Some provided \<Rightarrow> provided
             | None \<Rightarrow>
                 if autoDetect then getProjectAliases env projectRoot DEFAULT_ALIASES disk
                 else DEFAULT_ALIASES);
          ms = findKebabCaseFiles env disk absoluteTargetDir (Some ''/'') (Some ignore')
      in if length ms = 0 then
           (disk, Inr \<lparr>mappings = [], fileStats = [], importUpdates = [],
                       summary = \<lparr>totalFiles = 0, totalLines = 0, totalSize = 0, totalImports = 0\<rparr>,
                       wasDryRun = dry\<rparr>)
         else
           let stats = collectFileStats env disk ms;
               lineSum = foldl (\<lambda>sum f. sum + lines f) 0 stats;
               sizeSum = foldl (\<lambda>sum f. sum + size' f) 0 stats;
               project = loadProject env disk absoluteScanDir exts ignore';
               updates = findImportUpdates (processCwd env) project ms (Some aliases') (Some projectRoot);
               result = \<lparr>mappings = ms, fileStats = stats, importUpdates = updates,
                         summary = \<lparr>totalFiles = length ms, totalLines = lineSum,
                                     totalSize = sizeSum, totalImports = length updates\<rparr>,
                         wasDryRun = dry\<rparr>
           in if \<not> dry then
                (case renameAll env useGit ms
                        (saveProject (applyImportUpdates project updates) disk) of
                   (disk', Some e) \<Rightarrow> (disk', Inl e)
                 | (disk', None) \<Rightarrow> (disk', Inr result))
              else (disk, Inr result))"

section \<open>Auxiliary notions of the statements\<close>

definition isAlnum :: "char \<Rightarrow> bool" where
  "isAlnum c = (isLowerAZ c \<or> isUpperAZ c \<or> isDigit c)"

text \<open>
  The specifier texts that \<open>applyImportUpdates\<close> reads in a source file (import
  declarations, first arguments of \<open>import(...)\<close> calls without their first and last
  character, export declarations that have a specifier), and the updates of one file.
\<close>

definition currentSpecifiers :: "FileContent \<Rightarrow> string list" where
  "currentSpecifiers c =
     map fst (importDeclarations c)
     @ map (\<lambda>e. slice1 (hd (arguments e)))
         (filter (\<lambda>e. expression e = ''import'' \<and> arguments e \<noteq> []) (callExpressions c))
     @ concat (map (\<lambda>d. case fst d of None \<Rightarrow> [] | Some s \<Rightarrow> [s]) (exportDeclarations c))"

definition updatesOfFile :: "string \<Rightarrow> ImportUpdate list \<Rightarrow> ImportUpdate list" where
  "updatesOfFile f us = filter (\<lambda>u. file' u = f) us"

text \<open>
  When an alias applies to a specifier (the specifier is the alias, or starts with the
  alias followed by a slash, or with the alias itself when that already ends with a
  slash), and what is left of the specifier after that prefix. An alias table with two
  entries.
\<close>

definition aliasApplies :: "string \<Rightarrow> string \<Rightarrow> bool" where
  "aliasApplies s a = (s = a \<or> startsWith s (if endsWith a ''/'' then a else a @ ''/''))"

definition aliasRemainder :: "string \<Rightarrow> string \<Rightarrow> string" where
  "aliasRemainder s a =
     (let pre = (if endsWith a ''/'' then a else a @ ''/'')
      in if startsWith s pre then drop (length pre) s else [])"

definition twoAliases :: PathAliases where
  "twoAliases = [(''~'', ''lib''), (''@'', ''src'')]"

text \<open>Example inputs: the export file of the test fixtures, and a disk with a collision.\<close>

definition componentsIndex :: SourceFile where
  "componentsIndex =
     (''/p/src/components/index.ts'',
      \<lparr>importDeclarations = [], callExpressions = [],
       exportDeclarations =
         [(Some ''./my-button.vue'', 5), (Some ''./user-card'', 8), (Some ''./nav-menu.vue'', 11)]\<rparr>)"

definition componentFiles :: "string list" where
  "componentFiles =
     [''/p/src/components/my-button.vue'', ''/p/src/components/user-card.vue'',
      ''/p/src/components/nav-menu.vue'']"

definition emptyFile :: FileContent where
  "emptyFile = \<lparr>importDeclarations = [], callExpressions = [], exportDeclarations = []\<rparr>"

definition collisionDisk :: Disk where
  "collisionDisk =
     (\<lambda>p. if p = ''/p/my-button.vue'' \<or> p = ''/p/MyButton.vue'' then Some emptyFile else None)"


text \<open>
  An example run: a project root \<open>/p\<close> holding the example export file and the component
  \<open>my-button.vue\<close>; \<open>git mv\<close> is not available and the plain move succeeds when the old
  path exists. Two updates for the export file: one whose old specifier is no longer in
  the file, one that is.
\<close>

definition exampleFsRename :: "string \<Rightarrow> string \<Rightarrow> Disk \<Rightarrow> Disk option" where
  "exampleFsRename old new disk =
     (case disk old of None \<Rightarrow> None | Some c \<Rightarrow> Some ((disk(old := None))(new \<mapsto> c)))"

definition exampleEnv :: Env where
  "exampleEnv =
     \<lparr>processCwd = ''/p'',
      glob = (\<lambda>pat dir ign disk.
                if pat = ''**/*.vue'' then [''/p/src/components/my-button.vue'']
                else [''/p/src/components/index.ts'', ''/p/src/components/my-button.vue'']),
      gitMv = (\<lambda>old new disk. None),
      renameSync = exampleFsRename,
      countLines = (\<lambda>c. 1),
      byteSize = (\<lambda>c. 1),
      loadViteAliases = (\<lambda>root disk. None)\<rparr>"

definition exampleDisk :: Disk where
  "exampleDisk =
     (\<lambda>p. if p = ''/p/src/components/index.ts'' then Some (snd componentsIndex)
          else if p = ''/p/src/components/my-button.vue'' then Some emptyFile
          else None)"

definition exampleOptions :: RenameOptions where
  "exampleOptions =
     \<lparr>targetDir = ''src'', cwd = None, importScanDir = None, extensions = None, ignore = None,
      dryRun = None, useGitMv = None, aliases = None, autoDetectAliases = None\<rparr>"

definition exampleResult :: RenameResult where
  "exampleResult =
     \<lparr>mappings =
        [\<lparr>oldPath = ''/p/src/components/my-button.vue'',
            newPath = ''/p/src/components/MyButton.vue'',
            oldName = ''my-button.vue'', newName = ''MyButton.vue''\<rparr>],
      fileStats =
        [\<lparr>oldPath = ''/p/src/components/my-button.vue'',
            newPath = ''/p/src/components/MyButton.vue'',
            oldName = ''my-button.vue'', newName = ''MyButton.vue'',
            lines = 1, size' = 1\<rparr>],
      importUpdates =
        [\<lparr>file' = ''/p/src/components/index.ts'', oldImport = ''./my-button.vue'',
            newImport = ''./MyButton.vue'', line = 5\<rparr>],
      summary = \<lparr>totalFiles = 1, totalLines = 1, totalSize = 1, totalImports = 1\<rparr>,
      wasDryRun = False\<rparr>"

definition driftedUpdate :: ImportUpdate where
  "driftedUpdate =
     \<lparr>file' = ''/p/src/components/index.ts'', oldImport = ''./old-button.vue'',
      newImport = ''./OldButton.vue'', line = 5\<rparr>"

definition validUpdate :: ImportUpdate where
  "validUpdate =
     \<lparr>file' = ''/p/src/components/index.ts'', oldImport = ''./my-button.vue'',
      newImport = ''./MyButton.vue'', line = 5\<rparr>"


section \<open>Facts about strings and paths\<close>

lemma lastIndexFrom_Some:
  "lastIndexFrom s t n = Some i \<Longrightarrow>
     occursAt s t i \<and> i \<le> n \<and> (\<forall>j. i < j \<and> j \<le> n \<longrightarrow> \<not> occursAt s t j)"
proof (induction n)
  case 0
  then show ?case by (auto split: if_splits)
next
  case (Suc n)
  show ?case
  proof (cases "occursAt s t (Suc n)")
    case True
    with Suc.prems show ?thesis by auto
  next
    case False
    with Suc.prems have "lastIndexFrom s t n = Some i" by simp
    from Suc.IH[OF this] False show ?thesis
      by (metis le_SucE le_SucI)
  qed
qed

lemma lastIndexFrom_None:
  "lastIndexFrom s t n = None \<Longrightarrow> j \<le> n \<Longrightarrow> \<not> occursAt s t j"
proof (induction n)
  case 0
  then show ?case by (auto split: if_splits)
next
  case (Suc n)
  then show ?case by (cases "j = Suc n") (auto split: if_splits)
qed

lemma occursAt_bound: "occursAt s t j \<Longrightarrow> length t \<le> length s \<and> j \<le> length s - length t"
  by (auto simp: occursAt_def)

lemma lastIndexOf_Some:
  assumes "lastIndexOf s t = Some i"
  shows "occursAt s t i \<and> (\<forall>j. occursAt s t j \<longrightarrow> j \<le> i)"
proof -
  from assms have le: "length t \<le> length s"
    and lf: "lastIndexFrom s t (length s - length t) = Some i"
    by (auto simp: lastIndexOf_def split: if_splits)
  from lastIndexFrom_Some[OF lf] occursAt_bound show ?thesis
    by (metis not_le_imp_less)
qed

lemma lastIndexOf_None:
  assumes "lastIndexOf s t = None"
  shows "\<not> occursAt s t j"
proof
  assume o: "occursAt s t j"
  with occursAt_bound have b: "length t \<le> length s" "j \<le> length s - length t" by auto
  with assms have "lastIndexFrom s t (length s - length t) = None"
    by (simp add: lastIndexOf_def)
  from lastIndexFrom_None[OF this b(2)] o show False by simp
qed

lemma occursAt_split: "occursAt s t i \<Longrightarrow> s = take i s @ t @ drop (i + length t) s"
  by (metis occursAt_def append_take_drop_id take_drop add.commute drop_drop)



lemma isAlnum_not_special: "isAlnum c \<Longrightarrow> c \<noteq> CHR ''/'' \<and> c \<noteq> CHR ''.'' \<and> c \<noteq> CHR ''-''"
  by (auto simp: isAlnum_def isLowerAZ_def isUpperAZ_def isDigit_def)

lemma toUpperChar_lower: "isLowerAZ c \<Longrightarrow> isUpperAZ (toUpperChar c)"
  by (auto simp: toUpperChar_def isLowerAZ_def isUpperAZ_def)

lemma upper_not_lower: "isUpperAZ c \<Longrightarrow> \<not> isLowerAZ c"
  by (auto simp: isLowerAZ_def isUpperAZ_def)

lemma toUpperChar_alnum: "isLowerAlnum c \<Longrightarrow> isAlnum (toUpperChar c)"
  by (auto simp: toUpperChar_def isLowerAZ_def isUpperAZ_def isAlnum_def isLowerAlnum_def isDigit_def)

lemma toLowerChar_alnum: "isLowerAlnum c \<Longrightarrow> isAlnum (toLowerChar c)"
  by (auto simp: toLowerChar_def isLowerAZ_def isUpperAZ_def isAlnum_def isLowerAlnum_def isDigit_def)

lemma capitalize_alnum: "\<forall>c\<in>set w. isLowerAlnum c \<Longrightarrow> \<forall>c\<in>set (capitalize w). isAlnum c"
  by (cases w) (auto simp: toUpperChar_alnum toLowerChar_alnum)

lemma split_on_nonempty: "split_on c s \<noteq> []"
  by (induction s) (auto split: list.splits)

lemma split_on_set: "w \<in> set (split_on c s) \<Longrightarrow> set w \<subseteq> set s - {c}"
proof (induction s arbitrary: w)
  case Nil
  then show ?case by simp
next
  case (Cons x xs)
  show ?case
  proof (cases "x = c")
    case True
    with Cons show ?thesis by auto
  next
    case False
    obtain v vs where sp: "split_on c xs = v # vs"
      using split_on_nonempty by (cases "split_on c xs") auto
    with False Cons.prems have "w = x # v \<or> w \<in> set vs" by auto
    then show ?thesis
    proof
      assume "w = x # v"
      moreover have "set v \<subseteq> set xs - {c}" using Cons.IH[of v] sp by simp
      ultimately show ?thesis using False by auto
    next
      assume "w \<in> set vs"
      then have "set w \<subseteq> set xs - {c}" using Cons.IH[of w] sp by simp
      then show ?thesis by auto
    qed
  qed
qed

lemma split_on_head: "x \<noteq> c \<Longrightarrow> \<exists>w ws. split_on c (x # xs) = (x # w) # ws"
  using split_on_nonempty[of c xs] by (cases "split_on c xs") auto

lemma kebabWord_chars:
  "(kebabWord s \<longrightarrow> (\<forall>x\<in>set s. isLowerAlnum x \<or> x = CHR ''-''))
   \<and> (kebabGroup s \<longrightarrow> (\<forall>x\<in>set s. isLowerAlnum x \<or> x = CHR ''-''))"
  by (induction s) (auto split: if_splits)

lemma kebabHead_chars: "kebabHead s \<Longrightarrow> \<forall>x\<in>set s. isLowerAlnum x \<or> x = CHR ''-''"
  using kebabWord_chars by (induction s) (auto split: if_splits)

lemma kebabRegex_shape:
  assumes "kebabRegex b"
  shows "\<exists>c cs. b = c # cs \<and> isLowerAZ c \<and> (\<forall>x\<in>set b. isLowerAlnum x \<or> x = CHR ''-'')"
proof (cases b)
  case Nil
  with assms show ?thesis by simp
next
  case (Cons c cs)
  with assms have "isLowerAZ c" "kebabHead cs" by auto
  with kebabHead_chars[of cs] Cons show ?thesis by (auto simp: isLowerAlnum_def)
qed


lemma pascalName_shape:
  assumes "kebabRegex b"
  shows "\<exists>u us. pascalName b = u # us \<and> isUpperAZ u \<and> (\<forall>x\<in>set (pascalName b). isAlnum x)"
proof -
  from kebabRegex_shape[OF assms] obtain c cs where b: "b = c # cs" and lc: "isLowerAZ c"
    and chars: "\<forall>x\<in>set b. isLowerAlnum x \<or> x = CHR ''-''" by blast
  from lc have "c \<noteq> CHR ''-''" by (auto simp: isLowerAZ_def)
  from split_on_head[OF this] obtain w ws where sp: "split_on CHR ''-'' b = (c # w) # ws"
    unfolding b by blast
  have "pascalName b = toUpperChar c # (map toLowerChar w @ concat (map capitalize ws))"
    by (simp add: pascalName_def sp)
  moreover have "isUpperAZ (toUpperChar c)" using lc by (rule toUpperChar_lower)
  moreover have "\<forall>x\<in>set (pascalName b). isAlnum x"
  proof
    fix x assume "x \<in> set (pascalName b)"
    then obtain v where v: "v \<in> set (split_on CHR ''-'' b)" and x: "x \<in> set (capitalize v)"
      by (auto simp: pascalName_def)
    from split_on_set[OF v] chars have "\<forall>c\<in>set v. isLowerAlnum c" by auto
    from capitalize_alnum[OF this] x show "isAlnum x" by simp
  qed
  ultimately show ?thesis by blast
qed

lemma lastSegment_no_slash: "CHR ''/'' \<notin> set (lastSegment p)"
proof
  assume "CHR ''/'' \<in> set (lastSegment p)"
  then have "CHR ''/'' \<in> set (takeWhile (\<lambda>c. \<not> isSlash c) (dropWhile isSlash (rev p)))"
    by (simp add: lastSegment_def)
  from set_takeWhileD[OF this] show False by (simp add: isSlash_def)
qed

lemma lastSegment_id: "CHR ''/'' \<notin> set q \<Longrightarrow> lastSegment q = q"
proof -
  assume a: "CHR ''/'' \<notin> set q"
  then have "\<forall>c\<in>set (rev q). \<not> isSlash c" by (auto simp: isSlash_def)
  then have dw: "dropWhile isSlash (rev q) = rev q"
    and tw: "takeWhile (\<lambda>c. \<not> isSlash c) (rev q) = rev q"
    by (cases "rev q", simp, simp, simp only: takeWhile_eq_all_conv)
  show ?thesis by (simp only: lastSegment_def dw tw rev_rev_ident)
qed

lemma lastSegment_length: "length (lastSegment p) \<le> length p"
proof -
  have "length (lastSegment p) \<le> length (dropWhile isSlash (rev p))"
    unfolding lastSegment_def length_rev by (rule length_takeWhile_le)
  also have "\<dots> \<le> length (rev p)" by (rule length_dropWhile_le)
  finally show ?thesis by simp
qed

text \<open>A string with a dot splits at its last dot.\<close>

lemma last_dot_split:
  assumes "CHR ''.'' \<in> set seg"
  shows "\<exists>pre. seg = pre @ CHR ''.'' # rev (takeWhile (\<lambda>c. c \<noteq> CHR ''.'') (rev seg))"
proof -
  let ?P = "\<lambda>c. c \<noteq> CHR ''.''"
  from assms have "dropWhile ?P (rev seg) \<noteq> []" by (auto simp: dropWhile_eq_Nil_conv)
  then obtain d ds where d: "dropWhile ?P (rev seg) = d # ds" by (cases "dropWhile ?P (rev seg)") auto
  from hd_dropWhile[of ?P "rev seg"] d have "d = CHR ''.''" by auto
  have "rev seg = takeWhile ?P (rev seg) @ dropWhile ?P (rev seg)" by simp
  then have "seg = rev (dropWhile ?P (rev seg)) @ rev (takeWhile ?P (rev seg))"
    by (metis rev_append rev_rev_ident)
  with d \<open>d = CHR ''.''\<close> have "seg = rev ds @ CHR ''.'' # rev (takeWhile ?P (rev seg))" by simp
  then show ?thesis by blast
qed

lemma extname_cases:
  "extname p = [] \<or>
   (\<exists>pre after. pre \<noteq> [] \<and> lastSegment p = pre @ CHR ''.'' # after
       \<and> extname p = CHR ''.'' # after \<and> CHR ''.'' \<notin> set after \<and> CHR ''/'' \<notin> set after)"
proof (cases "extname p = []")
  case True
  then show ?thesis by simp
next
  case False
  let ?seg = "lastSegment p"
  let ?after = "rev (takeWhile (\<lambda>c. c \<noteq> CHR ''.'') (rev ?seg))"
  from False have dot: "CHR ''.'' \<in> set ?seg" and ne: "Suc (length ?after) \<noteq> length ?seg"
    and e: "extname p = CHR ''.'' # ?after"
    by (auto simp: extname_def Let_def split: if_splits)
  from last_dot_split[OF dot] obtain pre where sp: "?seg = pre @ CHR ''.'' # ?after" by blast
  have "length ?seg = length pre + Suc (length ?after)"
    by (subst sp) simp
  with ne have "pre \<noteq> []" by auto
  moreover have "CHR ''.'' \<notin> set ?after"
    using set_takeWhileD[of "CHR ''.''" "\<lambda>c. c \<noteq> CHR ''.''" "rev ?seg"] by auto
  moreover have "CHR ''/'' \<notin> set ?after"
    using lastSegment_no_slash[of p] set_takeWhileD[of "CHR ''/''" "\<lambda>c. c \<noteq> CHR ''.''" "rev ?seg"]
    by auto
  ultimately show ?thesis using sp e by blast
qed

lemma lastSegment_split: "lastSegment p = basenameExt p (extname p) @ extname p"
proof -
  from extname_cases[of p] show ?thesis
  proof
    assume "extname p = []"
    then show ?thesis by (simp add: basenameExt_def)
  next
    assume "\<exists>pre after. pre \<noteq> [] \<and> lastSegment p = pre @ CHR ''.'' # after
       \<and> extname p = CHR ''.'' # after \<and> CHR ''.'' \<notin> set after \<and> CHR ''/'' \<notin> set after"
    then obtain pre after where pre: "pre \<noteq> []" and seg: "lastSegment p = pre @ CHR ''.'' # after"
      and e: "extname p = CHR ''.'' # after" by blast
    have l1: "length (extname p) < length (lastSegment p)" using pre seg e by simp
    with lastSegment_length[of p] have l2: "length (extname p) < length p" by simp
    then have neq: "extname p \<noteq> p" by auto
    have ew: "endsWith (lastSegment p) (extname p)" by (simp add: endsWith_def seg e)
    have "basenameExt p (extname p) = take (length (lastSegment p) - length (extname p)) (lastSegment p)"
      using l1 l2 neq ew e by (simp add: basenameExt_def Let_def)
    also have "\<dots> = pre" by (simp add: seg e)
    finally show ?thesis by (simp add: seg e)
  qed
qed

lemma extname_no_slash: "CHR ''/'' \<notin> set (extname p)"
  using extname_cases[of p] by auto

text \<open>The extension of a dot-free, slash-free, non-empty stem followed by an extension.\<close>

lemma extname_stem:
  assumes stem: "stem \<noteq> []" "CHR ''.'' \<notin> set stem" "CHR ''/'' \<notin> set stem"
  shows "extname (stem @ extname p) = extname p"
proof -
  from extname_cases[of p] show ?thesis
  proof
    assume e: "extname p = []"
    with stem have "lastSegment (stem @ extname p) = stem" by (simp add: lastSegment_id)
    with stem e show ?thesis by (simp add: extname_def)
  next
    assume "\<exists>pre after. pre \<noteq> [] \<and> lastSegment p = pre @ CHR ''.'' # after
       \<and> extname p = CHR ''.'' # after \<and> CHR ''.'' \<notin> set after \<and> CHR ''/'' \<notin> set after"
    then obtain after where e: "extname p = CHR ''.'' # after"
      and nd: "CHR ''.'' \<notin> set after" and ns: "CHR ''/'' \<notin> set after" by blast
    let ?q = "stem @ CHR ''.'' # after"
    have seg: "lastSegment ?q = ?q" using stem ns by (simp add: lastSegment_id)
    have "\<forall>c\<in>set (rev after). c \<noteq> CHR ''.''" using nd by auto
    then have tw: "takeWhile (\<lambda>c. c \<noteq> CHR ''.'') (rev ?q) = rev after"
      by (simp add: takeWhile_tail)
    have "?q \<noteq> ''..''" using stem by (cases stem) auto
    then have "extname ?q = CHR ''.'' # after"
      using stem by (simp add: extname_def seg tw del: rev_append rev.simps)
    then show ?thesis by (simp add: e)
  qed
qed

lemma basenameExt_stem:
  assumes stem: "stem \<noteq> []" "CHR ''.'' \<notin> set stem" "CHR ''/'' \<notin> set stem"
  shows "basenameExt (stem @ extname p) (extname (stem @ extname p)) = stem"
proof -
  have "CHR ''/'' \<notin> set (stem @ extname p)" using stem extname_no_slash[of p] by simp
  then have "lastSegment (stem @ extname p) = stem @ extname p" by (rule lastSegment_id)
  with lastSegment_split[of "stem @ extname p"] extname_stem[OF stem, of p]
  show ?thesis by simp
qed

lemma isKebabCase_shape:
  assumes "isKebabCase n"
  shows "\<exists>u us. toPascalCase n = (u # us) @ extname n \<and> isUpperAZ u
            \<and> (\<forall>x\<in>set (u # us). isAlnum x)
            \<and> u # us = pascalName (basenameExt n (extname n))"
proof -
  from assms have "kebabRegex (basenameExt n (extname n))" by (simp add: isKebabCase_def)
  from pascalName_shape[OF this] show ?thesis
    by (auto simp: toPascalCase_def Let_def)
qed

lemma alnum_stem:
  assumes "\<forall>x\<in>set st. isAlnum x"
  shows "CHR ''.'' \<notin> set st \<and> CHR ''/'' \<notin> set st \<and> CHR ''-'' \<notin> set st"
  using assms isAlnum_not_special by blast

lemma kebabRegex_not_upper: "isUpperAZ u \<Longrightarrow> \<not> kebabRegex (u # us)"
  by (simp add: upper_not_lower)

lemma split_on_absent: "c \<notin> set s \<Longrightarrow> split_on c s = [s]"
  by (induction s) auto

lemma toPascalCase_twice:
  assumes "isKebabCase n"
  shows "toPascalCase (toPascalCase n)
           = capitalize (pascalName (basenameExt n (extname n))) @ extname n"
proof -
  from isKebabCase_shape[OF assms] obtain u us where
    tp: "toPascalCase n = (u # us) @ extname n" and up: "isUpperAZ u"
    and al: "\<forall>x\<in>set (u # us). isAlnum x"
    and P: "u # us = pascalName (basenameExt n (extname n))" by blast
  from alnum_stem[OF al] have st: "u # us \<noteq> []" "CHR ''.'' \<notin> set (u # us)" "CHR ''/'' \<notin> set (u # us)"
    and hy: "CHR ''-'' \<notin> set (u # us)"
    by simp_all
  have b: "basenameExt (toPascalCase n) (extname (toPascalCase n)) = u # us"
    unfolding tp by (rule basenameExt_stem[OF st])
  have e: "extname (toPascalCase n) = extname n"
    unfolding tp by (rule extname_stem[OF st])
  have "toPascalCase (toPascalCase n) = pascalName (u # us) @ extname n"
    using b e by (simp add: toPascalCase_def[of "toPascalCase n"] Let_def)
  also have "pascalName (u # us) = capitalize (u # us)"
    using split_on_absent[OF hy] by (simp add: pascalName_def)
  finally show ?thesis using P by simp
qed

lemma toLowerChar_fixed: "(toLowerChar x = x) = (\<not> isUpperAZ x)"
proof (cases "isUpperAZ x")
  case True
  then have "of_char (toLowerChar x) = (of_char x :: nat) + 32"
    by (simp add: toLowerChar_def isUpperAZ_def)
  then have "toLowerChar x \<noteq> x" by auto
  with True show ?thesis by simp
next
  case False
  then show ?thesis by (simp add: toLowerChar_def)
qed

lemma map_toLowerChar_fixed: "(map toLowerChar xs = xs) = (\<forall>x\<in>set xs. \<not> isUpperAZ x)"
  by (induction xs) (auto simp: toLowerChar_fixed)

lemma lowerAlnum_not_upper: "isLowerAlnum x \<Longrightarrow> \<not> isUpperAZ x"
  by (auto simp: isLowerAlnum_def isLowerAZ_def isDigit_def isUpperAZ_def)

lemma toLowerChar_not_upper: "isLowerAlnum x \<Longrightarrow> \<not> isUpperAZ (toLowerChar x)"
  by (auto simp: toLowerChar_def isLowerAlnum_def isLowerAZ_def isDigit_def isUpperAZ_def)

lemma toUpperChar_upper_iff: "isLowerAlnum x \<Longrightarrow> isUpperAZ (toUpperChar x) = isLowerAZ x"
  by (auto simp: toUpperChar_def isLowerAlnum_def isLowerAZ_def isDigit_def isUpperAZ_def)

lemma toUpperChar_of_upper: "isUpperAZ u \<Longrightarrow> toUpperChar u = u"
  by (simp add: toUpperChar_def upper_not_lower)

lemma capitalize_has_upper:
  assumes "\<forall>x\<in>set v. isLowerAlnum x"
  shows "(\<exists>x\<in>set (capitalize v). isUpperAZ x) = (v \<noteq> [] \<and> isLowerAZ (hd v))"
proof (cases v)
  case Nil
  then show ?thesis by simp
next
  case (Cons y ys)
  with assms have "\<forall>x\<in>set ys. \<not> isUpperAZ (toLowerChar x)" "isLowerAlnum y"
    by (auto simp: toLowerChar_not_upper)
  with Cons show ?thesis by (auto simp: toUpperChar_upper_iff)
qed

lemma capitalize_pascalName_iff:
  assumes "kebabRegex b"
  shows "(capitalize (pascalName b) \<noteq> pascalName b)
           = (\<exists>v\<in>set (tl (split_on CHR ''-'' b)). v \<noteq> [] \<and> isLowerAZ (hd v))"
proof -
  from kebabRegex_shape[OF assms] obtain c cs where b: "b = c # cs" and lc: "isLowerAZ c"
    and chars: "\<forall>x\<in>set b. isLowerAlnum x \<or> x = CHR ''-''" by blast
  from lc have "c \<noteq> CHR ''-''" by (auto simp: isLowerAZ_def)
  from split_on_head[OF this] obtain w ws where sp: "split_on CHR ''-'' b = (c # w) # ws"
    unfolding b by blast
  have words: "\<forall>x\<in>set v. isLowerAlnum x" if "v \<in> set (split_on CHR ''-'' b)" for v
    using split_on_set[OF that] chars by auto
  let ?T = "map toLowerChar w @ concat (map capitalize ws)"
  have P: "pascalName b = toUpperChar c # ?T" by (simp add: pascalName_def sp)
  have "capitalize (pascalName b) = toUpperChar c # map toLowerChar ?T"
    unfolding P using toUpperChar_of_upper[OF toUpperChar_lower[OF lc]] by simp
  then have "(capitalize (pascalName b) \<noteq> pascalName b) = (map toLowerChar ?T \<noteq> ?T)"
    unfolding P by simp
  also have "\<dots> = (\<exists>x\<in>set ?T. isUpperAZ x)" by (simp only: map_toLowerChar_fixed) blast
  also have "\<dots> = (\<exists>v\<in>set ws. \<exists>x\<in>set (capitalize v). isUpperAZ x)"
  proof -
    have "\<forall>x\<in>set w. isLowerAlnum x" using words[of "c # w"] sp by simp
    then have "\<forall>x\<in>set (map toLowerChar w). \<not> isUpperAZ x" by (auto simp: toLowerChar_not_upper)
    then show ?thesis by auto
  qed
  also have "\<dots> = (\<exists>v\<in>set ws. v \<noteq> [] \<and> isLowerAZ (hd v))"
  proof -
    have "(\<exists>x\<in>set (capitalize v). isUpperAZ x) = (v \<noteq> [] \<and> isLowerAZ (hd v))" if "v \<in> set ws" for v
      using capitalize_has_upper[OF words[of v]] that sp by simp
    then show ?thesis by blast
  qed
  finally show ?thesis by (simp add: sp)
qed


section \<open>The naming transform\<close>

text \<open>
  C8. A file name that \<open>isKebabCase\<close> accepts is transformed by \<open>toPascalCase\<close> into a name
  that \<open>isKebabCase\<close> rejects.
\<close>

theorem toPascalCase_not_kebab:
  assumes "isKebabCase n"
  shows "\<not> isKebabCase (toPascalCase n)"
proof -
  from isKebabCase_shape[OF assms] obtain u us where
    tp: "toPascalCase n = (u # us) @ extname n" and up: "isUpperAZ u"
    and al: "\<forall>x\<in>set (u # us). isAlnum x" by blast
  from alnum_stem[OF al] have st: "u # us \<noteq> []" "CHR ''.'' \<notin> set (u # us)" "CHR ''/'' \<notin> set (u # us)"
    by simp_all
  have "basenameExt (toPascalCase n) (extname (toPascalCase n)) = u # us"
    unfolding tp by (rule basenameExt_stem[OF st])
  then show ?thesis using kebabRegex_not_upper[OF up] by (simp add: isKebabCase_def)
qed


theorem toPascalCase_not_kebab_witness:
  "isKebabCase ''my-button.vue'' \<and> \<not> isKebabCase (toPascalCase ''my-button.vue'')"
proof -
  have h: "isKebabCase ''my-button.vue''" by code_simp
  show ?thesis using h toPascalCase_not_kebab[OF h] by simp
qed

text \<open>
  C10, as stated for every kebab-case name, fails: in \<open>a-1.vue\<close> the second word begins
  with a digit, and the output \<open>A1.vue\<close> is a fixed point of \<open>toPascalCase\<close>.
\<close>

theorem toPascalCase_idempotent_counterexample:
  "isKebabCase ''a-1.vue''
   \<and> split_on CHR ''-'' (basenameExt ''a-1.vue'' (extname ''a-1.vue'')) = [''a'', ''1'']
   \<and> toPascalCase (toPascalCase ''a-1.vue'') = toPascalCase ''a-1.vue''"
  by code_simp

text \<open>
  C10, amended. \<open>toPascalCase\<close> is not idempotent: \<open>my-button.vue\<close> becomes \<open>MyButton.vue\<close>,
  which a second application turns into \<open>Mybutton.vue\<close>. For a kebab-case name, the second
  application changes the output exactly when some word after the first begins with a
  letter.
\<close>

theorem toPascalCase_not_idempotent:
  "toPascalCase ''my-button.vue'' = ''MyButton.vue''
   \<and> toPascalCase ''MyButton.vue'' = ''Mybutton.vue''
   \<and> toPascalCase (toPascalCase ''my-button.vue'') \<noteq> toPascalCase ''my-button.vue''
   \<and> (isKebabCase n \<longrightarrow>
        (toPascalCase (toPascalCase n) \<noteq> toPascalCase n)
          = (\<exists>w\<in>set (tl (split_on CHR ''-'' (basenameExt n (extname n)))). w \<noteq> [] \<and> isLowerAZ (hd w)))"
proof -
  have a: "toPascalCase ''my-button.vue'' = ''MyButton.vue''" by code_simp
  have b: "toPascalCase ''MyButton.vue'' = ''Mybutton.vue''" by code_simp
  have c: "(toPascalCase (toPascalCase n) \<noteq> toPascalCase n)
          = (\<exists>w\<in>set (tl (split_on CHR ''-'' (basenameExt n (extname n)))). w \<noteq> [] \<and> isLowerAZ (hd w))"
    if k: "isKebabCase n"
  proof -
    from k have r: "kebabRegex (basenameExt n (extname n))" by (simp add: isKebabCase_def)
    have "toPascalCase n = pascalName (basenameExt n (extname n)) @ extname n"
      by (simp add: toPascalCase_def Let_def)
    with toPascalCase_twice[OF k] capitalize_pascalName_iff[OF r] show ?thesis by simp
  qed
  from a b c show ?thesis by simp
qed


theorem toPascalCase_not_idempotent_witness:
  "isKebabCase ''my-button.vue''
   \<and> (\<exists>w\<in>set (tl (split_on CHR ''-'' (basenameExt ''my-button.vue'' (extname ''my-button.vue'')))).
         w \<noteq> [] \<and> isLowerAZ (hd w))
   \<and> toPascalCase (toPascalCase ''my-button.vue'') \<noteq> toPascalCase ''my-button.vue''"
proof -
  have h: "isKebabCase ''my-button.vue''" by code_simp
  have w: "tl (split_on CHR ''-'' (basenameExt ''my-button.vue'' (extname ''my-button.vue''))) = [''button'']"
    by code_simp
  have l: "isLowerAZ (hd ''button'')" by code_simp
  show ?thesis using h l toPascalCase_not_idempotent[of "''my-button.vue''"]
    by (simp only: w) simp
qed


section \<open>The rewriter\<close>

text \<open>
  C5. If \<open>oldName\<close> occurs in the specifier, \<open>replaceImportPath\<close> replaces its last
  occurrence by \<open>newName\<close> and keeps what is before and after it; if it does not occur, the
  specifier is returned as it is.
\<close>

theorem replaceImportPath_last_occurrence:
  "(if \<exists>i. occursAt s oldN i
    then \<exists>pre post. s = pre @ oldN @ post
           \<and> (\<forall>j. occursAt s oldN j \<longrightarrow> j \<le> length pre)
           \<and> replaceImportPath s oldN newN = pre @ newN @ post
    else replaceImportPath s oldN newN = s)"
proof (cases "lastIndexOf s oldN")
  case None
  then show ?thesis using lastIndexOf_None[OF None] by (simp add: replaceImportPath_def)
next
  case (Some i)
  from lastIndexOf_Some[OF Some] have o: "occursAt s oldN i"
    and mx: "\<forall>j. occursAt s oldN j \<longrightarrow> j \<le> i" by auto
  from o have len: "length (take i s) = i" by (auto simp: occursAt_def)
  have "s = take i s @ oldN @ drop (i + length oldN) s" using occursAt_split[OF o] .
  moreover have "\<forall>j. occursAt s oldN j \<longrightarrow> j \<le> length (take i s)" using mx len by simp
  moreover have "replaceImportPath s oldN newN = take i s @ newN @ drop (i + length oldN) s"
    using Some by (simp add: replaceImportPath_def)
  ultimately have "\<exists>pre post. s = pre @ oldN @ post
           \<and> (\<forall>j. occursAt s oldN j \<longrightarrow> j \<le> length pre)
           \<and> replaceImportPath s oldN newN = pre @ newN @ post" by blast
  with o show ?thesis by auto
qed

theorem replaceImportPath_last_occurrence_witness:
  "occursAt ''@/my-button/my-button.vue'' ''my-button'' 12
   \<and> (\<exists>pre post. ''@/my-button/my-button.vue'' = pre @ ''my-button'' @ post
         \<and> (\<forall>j. occursAt ''@/my-button/my-button.vue'' ''my-button'' j \<longrightarrow> j \<le> length pre)
         \<and> replaceImportPath ''@/my-button/my-button.vue'' ''my-button'' ''MyButton''
             = pre @ ''MyButton'' @ post)
   \<and> \<not> (\<exists>i. occursAt ''./a'' ''my-button'' i)
   \<and> replaceImportPath ''./a'' ''my-button'' ''MyButton'' = ''./a''"
proof -
  have h: "occursAt ''@/my-button/my-button.vue'' ''my-button'' 12" by code_simp
  then have ex: "\<exists>i. occursAt ''@/my-button/my-button.vue'' ''my-button'' i" by blast
  have nex: "\<not> (\<exists>i. occursAt ''./a'' ''my-button'' i)" by (simp add: occursAt_def)
  show ?thesis
    using h nex
      replaceImportPath_last_occurrence[of "''@/my-button/my-button.vue''" "''my-button''" "''MyButton''"]
      replaceImportPath_last_occurrence[of "''./a''" "''my-button''" "''MyButton''"]
    by (simp only: ex nex if_True if_False simp_thms)
qed

lemma matchesImport_iff:
  "matchesImport wd f s m al r
     = (nameFilter s (oldName m) \<and> resolvedTarget wd f s al r = Some (oldPath m))"
  by (auto simp: matchesImport_def nameFilter_def resolvedTarget_def Let_def split: option.splits)


lemma nameFilter_split:
  assumes "nameFilter s nm"
  shows "\<exists>pre. s = pre @ nm \<and> (pre = [] \<or> (\<exists>q. pre = q @ ''/''))"
proof -
  from assms consider (a) "endsWith s (''/'' @ nm)" | (b) "s = ''./'' @ nm" | (c) "s = nm"
    by (auto simp: nameFilter_def)
  then show ?thesis
  proof cases
    case a
    then have "s = take (length s - length (''/'' @ nm)) s @ ''/'' @ nm"
      by (metis endsWith_def append_take_drop_id)
    then have "s = (take (length s - length (''/'' @ nm)) s @ ''/'') @ nm" by simp
    then show ?thesis by blast
  next
    case b
    then have "s = ('''' @ ''./'') @ nm" by simp
    then show ?thesis by (metis append_Cons append_Nil)
  next
    case c
    then show ?thesis by simp
  qed
qed

lemma replaceImportPath_at_end: "replaceImportPath (pre @ nm) nm nn = pre @ nn"
proof -
  have o: "occursAt (pre @ nm) nm (length pre)" by (simp add: occursAt_def)
  with lastIndexOf_None[of "pre @ nm" nm "length pre"]
  obtain i where i: "lastIndexOf (pre @ nm) nm = Some i" by (cases "lastIndexOf (pre @ nm) nm") auto
  from lastIndexOf_Some[OF i] o have "length pre \<le> i" and "occursAt (pre @ nm) nm i" by auto
  then have "i = length pre" by (auto simp: occursAt_def)
  with i show ?thesis by (simp add: replaceImportPath_def)
qed

lemma after_last_slash:
  assumes "CHR ''/'' \<notin> set a" and "CHR ''/'' \<notin> set b" and "x @ CHR ''/'' # a = y @ CHR ''/'' # b"
  shows "a = b"
proof -
  let ?P = "\<lambda>c. c \<noteq> CHR ''/''"
  have "takeWhile ?P (rev (x @ CHR ''/'' # a)) = rev a" if "CHR ''/'' \<notin> set a" for x a
  proof -
    from that have "\<forall>c\<in>set (rev a). ?P c" by auto
    then have "takeWhile ?P (rev a @ CHR ''/'' # rev x) = rev a"
      by (simp add: takeWhile_tail)
    then show ?thesis by simp
  qed
  from this[OF assms(1), of x] this[OF assms(2), of y] assms(3) have "rev a = rev b" by simp
  then show ?thesis by simp
qed

lemma nameFilter_rewritten:
  assumes sa: "CHR ''/'' \<notin> set nm" and sb: "CHR ''/'' \<notin> set nn" and ne: "nn \<noteq> nm"
    and pre: "pre = [] \<or> (\<exists>q. pre = q @ ''/'')"
  shows "\<not> nameFilter (pre @ nn) nm"
proof
  assume "nameFilter (pre @ nn) nm"
  from nameFilter_split[OF this] obtain pre' where
    eq: "pre @ nn = pre' @ nm" and pre': "pre' = [] \<or> (\<exists>q. pre' = q @ ''/'')" by blast
  from pre show False
  proof
    assume p: "pre = []"
    from pre' show False
    proof
      assume "pre' = []"
      with p eq ne show False by simp
    next
      assume "\<exists>q. pre' = q @ ''/''"
      then obtain q where "pre' = q @ ''/''" by blast
      with p eq have "CHR ''/'' \<in> set nn" by simp
      with sb show False by simp
    qed
  next
    assume "\<exists>q. pre = q @ ''/''"
    then obtain q where q: "pre = q @ ''/''" by blast
    from pre' show False
    proof
      assume "pre' = []"
      with q eq have "CHR ''/'' \<in> set nm" by (metis append_Nil in_set_conv_decomp append.assoc append_Cons)
      with sa show False by simp
    next
      assume "\<exists>q'. pre' = q' @ ''/''"
      then obtain q' where "pre' = q' @ ''/''" by blast
      with q eq have "q @ CHR ''/'' # nn = q' @ CHR ''/'' # nm" by simp
      from after_last_slash[OF sb sa this] ne show False by simp
    qed
  qed
qed

lemma kebabMappings_mem:
  "m \<in> set (kebabMappings files) \<Longrightarrow>
     \<exists>filePath\<in>set files. isKebabCase (basename filePath) \<and> m = mappingOf filePath"
  by (induction files) (auto split: if_splits)

lemma mappingOf_names:
  assumes "isKebabCase (basename filePath)"
  shows "CHR ''/'' \<notin> set (oldName (mappingOf filePath))
       \<and> CHR ''/'' \<notin> set (newName (mappingOf filePath))
       \<and> newName (mappingOf filePath) \<noteq> oldName (mappingOf filePath)"
proof -
  let ?o = "basename filePath"
  have o: "oldName (mappingOf filePath) = ?o" and n: "newName (mappingOf filePath) = toPascalCase ?o"
    by (simp_all add: mappingOf_def Let_def)
  have so: "CHR ''/'' \<notin> set ?o" by (simp add: basename_def lastSegment_no_slash)
  from isKebabCase_shape[OF assms] obtain u us where
    tp: "toPascalCase ?o = (u # us) @ extname ?o" and up: "isUpperAZ u"
    and al: "\<forall>x\<in>set (u # us). isAlnum x" by blast
  from alnum_stem[OF al] extname_no_slash[of ?o] have sn: "CHR ''/'' \<notin> set (toPascalCase ?o)"
    unfolding tp by simp
  from assms have "kebabRegex (basenameExt ?o (extname ?o))" by (simp add: isKebabCase_def)
  from kebabRegex_shape[OF this] obtain c cs where
    b: "basenameExt ?o (extname ?o) = c # cs" and lc: "isLowerAZ c" by blast
  have "?o = lastSegment ?o" using lastSegment_id[OF so] by simp
  also have "\<dots> = (c # cs) @ extname ?o" using lastSegment_split[of ?o] b by simp
  finally have "hd ?o = c" by (metis append_Cons list.sel(1))
  moreover have "hd (toPascalCase ?o) = u" unfolding tp by simp
  ultimately have "toPascalCase ?o \<noteq> ?o" using up lc upper_not_lower by metis
  with so sn o n show ?thesis by simp
qed


lemma resolveAliasImport_None_iff:
  "(resolveAliasImport wd s al root = None)
     = (\<forall>(a, p)\<in>set al. \<not> (s = a \<or> startsWith s (aliasPrefix a)))"
proof (induction al)
  case Nil
  then show ?case by simp
next
  case (Cons ap al)
  obtain a p where ap: "ap = (a, p)" by (cases ap)
  show ?case
  proof (cases "startsWith s (aliasPrefix a) \<or> s = a")
    case True
    then show ?thesis unfolding ap by (auto simp: Let_def)
  next
    case False
    then show ?thesis unfolding ap using Cons.IH by simp
  qed
qed

lemma resolveAliasImport_step:
  "resolveAliasImport wd s ((a, p) # al) root =
     (if aliasApplies s a then Some (resolve wd [root, p, aliasRemainder s a])
      else resolveAliasImport wd s al root)"
  by (auto simp: aliasApplies_def aliasRemainder_def aliasPrefix_def Let_def)

lemma resolveAliasImport_first:
  "resolveAliasImport wd s al root = Some r \<Longrightarrow>
     \<exists>before a p after. al = before @ (a, p) # after
        \<and> (\<forall>(a', p')\<in>set before. \<not> aliasApplies s a')
        \<and> aliasApplies s a
        \<and> r = resolve wd [root, p, aliasRemainder s a]"
proof (induction al)
  case Nil
  then show ?case by simp
next
  case (Cons ap al)
  obtain a p where ap: "ap = (a, p)" by (cases ap)
  show ?case
  proof (cases "aliasApplies s a")
    case True
    with Cons.prems have "r = resolve wd [root, p, aliasRemainder s a]"
      unfolding ap resolveAliasImport_step by simp
    with True have "ap # al = [] @ (a, p) # al \<and> (\<forall>(a', p')\<in>set []. \<not> aliasApplies s a')
        \<and> aliasApplies s a \<and> r = resolve wd [root, p, aliasRemainder s a]"
      by (simp add: ap)
    then show ?thesis by blast
  next
    case False
    with Cons.prems have "resolveAliasImport wd s al root = Some r"
      unfolding ap resolveAliasImport_step by simp
    from Cons.IH[OF this] obtain before b q after where
      al: "al = before @ (b, q) # after"
      and nb: "\<forall>(a', p')\<in>set before. \<not> aliasApplies s a'"
      and ab: "aliasApplies s b" and r: "r = resolve wd [root, q, aliasRemainder s b]"
      by blast
    from al have "ap # al = (ap # before) @ (b, q) # after" by simp
    moreover from nb False have "\<forall>(a', p')\<in>set (ap # before). \<not> aliasApplies s a'"
      by (simp add: ap)
    ultimately show ?thesis using ab r by blast
  qed
qed

lemma resolveAliasImport_skip:
  "\<not> aliasApplies s a \<Longrightarrow>
     resolveAliasImport wd s (before @ (a, p) # after) root
       = resolveAliasImport wd s (before @ after) root"
proof (induction before)
  case Nil
  then show ?case by (simp only: append_Nil resolveAliasImport_step if_False)
next
  case (Cons bq before)
  obtain b q where bq: "bq = (b, q)" by (cases bq)
  from Cons.IH[OF Cons.prems] show ?case
    unfolding bq by (simp only: append_Cons resolveAliasImport_step)
qed

lemma at_not_applies: "x \<noteq> CHR ''/'' \<Longrightarrow> \<not> aliasApplies (CHR ''@'' # x # rest) ''@''"
  by (simp add: aliasApplies_def endsWith_def startsWith_def)

lemma kebabMappings_eq:
  "kebabMappings files = map mappingOf (filter (\<lambda>f. isKebabCase (basename f)) files)"
  by (induction files) auto

lemma mappingOf_oldPath: "oldPath (mappingOf f) = f"
  by (simp add: mappingOf_def Let_def)


section \<open>The matcher\<close>

text \<open>
  C1. Two mappings with the same old name whose old paths lie in different directories are
  never both matched by one specifier; under that hypothesis a mapping is matched exactly
  when the textual test on the shared name passes and the resolved absolute path equals
  its old path, so that at most one update is produced for the pair.
\<close>

theorem same_name_mappings_not_conflated:
  assumes "oldName A = oldName B" and "dirname (oldPath A) \<noteq> dirname (oldPath B)"
  shows "\<not> (matchesImport wd f s A al r \<and> matchesImport wd f s B al r)
       \<and> matchesImport wd f s A al r
           = (nameFilter s (oldName A) \<and> resolvedTarget wd f s al r = Some (oldPath A))
       \<and> matchesImport wd f s B al r
           = (nameFilter s (oldName A) \<and> resolvedTarget wd f s al r = Some (oldPath B))
       \<and> length (updatesFor wd f s ln [A, B] al r) \<le> 1"
proof -
  from assms(2) have ne: "oldPath A \<noteq> oldPath B" by auto
  have both: "\<not> (matchesImport wd f s A al r \<and> matchesImport wd f s B al r)"
    using ne by (auto simp: matchesImport_iff)
  then have "length (updatesFor wd f s ln [A, B] al r) \<le> 1"
    by (auto simp: updatesFor_def)
  with both assms(1) show ?thesis by (simp add: matchesImport_iff)
qed


theorem same_name_mappings_not_conflated_witness:
  "oldName (mappingOf ''/p/src/components/my-button.vue'')
     = oldName (mappingOf ''/p/src/shared/my-button.vue'')
   \<and> dirname (oldPath (mappingOf ''/p/src/components/my-button.vue''))
     \<noteq> dirname (oldPath (mappingOf ''/p/src/shared/my-button.vue''))
   \<and> matchesImport ''/p'' ''/p/src/pages/home-page.vue'' ''@/shared/my-button.vue''
        (mappingOf ''/p/src/shared/my-button.vue'') DEFAULT_ALIASES ''/p''
   \<and> \<not> matchesImport ''/p'' ''/p/src/pages/home-page.vue'' ''@/shared/my-button.vue''
        (mappingOf ''/p/src/components/my-button.vue'') DEFAULT_ALIASES ''/p''"
proof -
  have n: "oldName (mappingOf ''/p/src/components/my-button.vue'')
     = oldName (mappingOf ''/p/src/shared/my-button.vue'')" by code_simp
  have d: "dirname (oldPath (mappingOf ''/p/src/components/my-button.vue''))
     \<noteq> dirname (oldPath (mappingOf ''/p/src/shared/my-button.vue''))" by code_simp
  have b: "matchesImport ''/p'' ''/p/src/pages/home-page.vue'' ''@/shared/my-button.vue''
        (mappingOf ''/p/src/shared/my-button.vue'') DEFAULT_ALIASES ''/p''" by code_simp
  from same_name_mappings_not_conflated[OF n d, of "''/p''" "''/p/src/pages/home-page.vue''"
      "''@/shared/my-button.vue''" DEFAULT_ALIASES "''/p''"] b
  have "\<not> matchesImport ''/p'' ''/p/src/pages/home-page.vue'' ''@/shared/my-button.vue''
        (mappingOf ''/p/src/components/my-button.vue'') DEFAULT_ALIASES ''/p''" by blast
  with n d b show ?thesis by (intro conjI)
qed

text \<open>
  C2, evaluated on the export file of the test fixtures. The old name of a mapping carries
  the extension \<open>.vue\<close>; the reference with the extension is matched and rewritten, the
  reference without it fails the textual test and no update is produced for it.
\<close>

theorem extensionless_reference_not_matched:
  "oldName (mappingOf ''/p/src/components/my-button.vue'') = ''my-button.vue''
   \<and> matchesImport ''/p'' ''/p/src/components/index.ts'' ''./my-button.vue''
        (mappingOf ''/p/src/components/my-button.vue'') DEFAULT_ALIASES ''/p''
   \<and> replaceImportPath ''./my-button.vue'' ''my-button.vue'' ''MyButton.vue'' = ''./MyButton.vue''
   \<and> \<not> matchesImport ''/p'' ''/p/src/components/index.ts'' ''./my-button''
        (mappingOf ''/p/src/components/my-button.vue'') DEFAULT_ALIASES ''/p''
   \<and> findImportUpdates ''/p'' [componentsIndex] (kebabMappings componentFiles)
        (Some DEFAULT_ALIASES) (Some ''/p'')
      = [\<lparr>file' = ''/p/src/components/index.ts'', oldImport = ''./my-button.vue'',
           newImport = ''./MyButton.vue'', line = 5\<rparr>,
         \<lparr>file' = ''/p/src/components/index.ts'', oldImport = ''./nav-menu.vue'',
           newImport = ''./NavMenu.vue'', line = 11\<rparr>]"
proof -
  have a1: "oldName (mappingOf ''/p/src/components/my-button.vue'') = ''my-button.vue''"
    by code_simp
  have a2: "matchesImport ''/p'' ''/p/src/components/index.ts'' ''./my-button.vue''
        (mappingOf ''/p/src/components/my-button.vue'') DEFAULT_ALIASES ''/p''"
    by code_simp
  have a3: "replaceImportPath ''./my-button.vue'' ''my-button.vue'' ''MyButton.vue'' = ''./MyButton.vue''"
    by code_simp
  have a4: "\<not> matchesImport ''/p'' ''/p/src/components/index.ts'' ''./my-button''
        (mappingOf ''/p/src/components/my-button.vue'') DEFAULT_ALIASES ''/p''"
    by code_simp
  have a5: "findImportUpdates ''/p'' [componentsIndex] (kebabMappings componentFiles)
        (Some DEFAULT_ALIASES) (Some ''/p'')
      = [\<lparr>file' = ''/p/src/components/index.ts'', oldImport = ''./my-button.vue'',
           newImport = ''./MyButton.vue'', line = 5\<rparr>,
         \<lparr>file' = ''/p/src/components/index.ts'', oldImport = ''./nav-menu.vue'',
           newImport = ''./NavMenu.vue'', line = 11\<rparr>]"
    by code_simp
  from a1 a2 a3 a4 a5 show ?thesis by (intro conjI)
qed

text \<open>
  C6. For a mapping of the plan builder, a specifier that is matched is not matched any
  more after \<open>replaceImportPath\<close> has rewritten it.
\<close>

theorem rewrite_is_terminal:
  assumes "m \<in> set (kebabMappings files)"
    and "matchesImport wd f s m al r"
  shows "\<not> matchesImport wd f (replaceImportPath s (oldName m) (newName m)) m al r"
proof -
  from kebabMappings_mem[OF assms(1)] obtain filePath where
    k: "isKebabCase (basename filePath)" and m: "m = mappingOf filePath" by blast
  from mappingOf_names[OF k] m have so: "CHR ''/'' \<notin> set (oldName m)"
    and sn: "CHR ''/'' \<notin> set (newName m)" and ne: "newName m \<noteq> oldName m" by simp_all
  from assms(2) have "nameFilter s (oldName m)" by (simp add: matchesImport_iff)
  from nameFilter_split[OF this] obtain pre where s: "s = pre @ oldName m"
    and pre: "pre = [] \<or> (\<exists>q. pre = q @ ''/'')" by blast
  have "replaceImportPath s (oldName m) (newName m) = pre @ newName m"
    unfolding s by (rule replaceImportPath_at_end)
  with nameFilter_rewritten[OF so sn ne pre] show ?thesis by (simp add: matchesImport_iff)
qed

theorem rewrite_is_terminal_witness:
  "mappingOf ''/p/src/components/my-button.vue'' \<in> set (kebabMappings componentFiles)
   \<and> matchesImport ''/p'' ''/p/src/components/index.ts'' ''./my-button.vue''
        (mappingOf ''/p/src/components/my-button.vue'') DEFAULT_ALIASES ''/p''
   \<and> \<not> matchesImport ''/p'' ''/p/src/components/index.ts''
        (replaceImportPath ''./my-button.vue''
           (oldName (mappingOf ''/p/src/components/my-button.vue''))
           (newName (mappingOf ''/p/src/components/my-button.vue'')))
        (mappingOf ''/p/src/components/my-button.vue'') DEFAULT_ALIASES ''/p''"
proof -
  have k: "isKebabCase (basename ''/p/src/components/my-button.vue'')" by code_simp
  then have m: "mappingOf ''/p/src/components/my-button.vue'' \<in> set (kebabMappings componentFiles)"
    by (simp add: componentFiles_def)
  have b: "matchesImport ''/p'' ''/p/src/components/index.ts'' ''./my-button.vue''
        (mappingOf ''/p/src/components/my-button.vue'') DEFAULT_ALIASES ''/p''" by code_simp
  from rewrite_is_terminal[OF m b] m b show ?thesis by (intro conjI)
qed

text \<open>
  C7, as stated, fails for an alias that ends with a slash: the alias \<open>@/\<close> resolves
  \<open>@/foo\<close>, which neither equals the alias nor starts with the alias followed by a slash.
\<close>

theorem alias_trailing_slash_counterexample:
  "resolveAliasImport ''/p'' ''@/foo'' [(''@/'', ''src'')] ''/p'' = Some ''/p/src/foo''
   \<and> ''@/foo'' \<noteq> ''@/'' \<and> \<not> startsWith ''@/foo'' (''@/'' @ ''/'')"
  by code_simp


text \<open>
  C7, amended. A specifier is resolved exactly when, for some alias of the table, it equals
  the alias or starts with the prefix of the alias, which is the alias followed by a
  slash, or the alias itself when it already ends with one; every other specifier gives
  \<open>null\<close>. A result is the resolution under the first entry of the table whose alias
  applies: the project root, the directory of that entry and the specifier without that
  prefix. The alias \<open>@\<close> does not apply to a specifier whose first segment only begins
  with \<open>@\<close>: alone it gives \<open>null\<close>, and in any table its entry can be removed without
  changing what such a specifier resolves to.
\<close>

theorem alias_lookup_prefix_exact:
  "(resolveAliasImport wd s al root \<noteq> None)
     = (\<exists>(a, p)\<in>set al. s = a \<or> startsWith s (if endsWith a ''/'' then a else a @ ''/''))
   \<and> (x \<noteq> CHR ''/'' \<longrightarrow> resolveAliasImport wd (CHR ''@'' # x # rest) [(''@'', p')] root = None)
   \<and> (\<forall>r. resolveAliasImport wd s al root = Some r \<longrightarrow>
         (\<exists>before a p after. al = before @ (a, p) # after
            \<and> (\<forall>(a', p'')\<in>set before. \<not> aliasApplies s a')
            \<and> aliasApplies s a
            \<and> r = resolve wd [root, p, aliasRemainder s a]))
   \<and> (x \<noteq> CHR ''/'' \<longrightarrow>
         \<not> aliasApplies (CHR ''@'' # x # rest) ''@''
         \<and> resolveAliasImport wd (CHR ''@'' # x # rest) (front @ (''@'', p') # back) root
             = resolveAliasImport wd (CHR ''@'' # x # rest) (front @ back) root)"
proof -
  have a: "(resolveAliasImport wd s al root \<noteq> None)
     = (\<exists>(a, p)\<in>set al. s = a \<or> startsWith s (if endsWith a ''/'' then a else a @ ''/''))"
    using resolveAliasImport_None_iff[of wd s al root] by (auto simp: aliasPrefix_def)
  have b: "resolveAliasImport wd (CHR ''@'' # x # rest) [(''@'', p')] root = None" if "x \<noteq> CHR ''/''"
    using that by (simp add: aliasPrefix_def endsWith_def startsWith_def)
  have c: "\<forall>r. resolveAliasImport wd s al root = Some r \<longrightarrow>
         (\<exists>before a p after. al = before @ (a, p) # after
            \<and> (\<forall>(a', p'')\<in>set before. \<not> aliasApplies s a')
            \<and> aliasApplies s a
            \<and> r = resolve wd [root, p, aliasRemainder s a])"
    using resolveAliasImport_first[of wd s al root] by blast
  have d: "\<not> aliasApplies (CHR ''@'' # x # rest) ''@''
         \<and> resolveAliasImport wd (CHR ''@'' # x # rest) (front @ (''@'', p') # back) root
             = resolveAliasImport wd (CHR ''@'' # x # rest) (front @ back) root"
    if "x \<noteq> CHR ''/''"
    using at_not_applies[OF that] resolveAliasImport_skip by blast
  from a b c d show ?thesis by blast
qed

theorem alias_lookup_prefix_exact_witness:
  "resolveAliasImport ''/p'' ''@/components/my-button.vue'' DEFAULT_ALIASES ''/p'' \<noteq> None
   \<and> (\<exists>(a, p)\<in>set DEFAULT_ALIASES. ''@/components/my-button.vue'' = a
        \<or> startsWith ''@/components/my-button.vue'' (if endsWith a ''/'' then a else a @ ''/''))
   \<and> CHR ''f'' \<noteq> CHR ''/''
   \<and> resolveAliasImport ''/p'' ''@foo/bar'' [(''@'', ''src'')] ''/p'' = None
   \<and> resolveAliasImport ''/p'' ''@/components/my-button.vue'' twoAliases ''/p''
        = Some ''/p/src/components/my-button.vue''
   \<and> (\<exists>before a p after. twoAliases = before @ (a, p) # after
          \<and> (\<forall>(a', p'')\<in>set before. \<not> aliasApplies ''@/components/my-button.vue'' a')
          \<and> aliasApplies ''@/components/my-button.vue'' a
          \<and> ''/p/src/components/my-button.vue''
               = resolve ''/p'' [''/p'', p, aliasRemainder ''@/components/my-button.vue'' a])
   \<and> resolveAliasImport ''/p'' ''@foo/bar'' ([(''~'', ''lib'')] @ (''@'', ''src'') # []) ''/p''
       = resolveAliasImport ''/p'' ''@foo/bar'' ([(''~'', ''lib'')] @ []) ''/p''"
proof -
  have h: "resolveAliasImport ''/p'' ''@/components/my-button.vue'' DEFAULT_ALIASES ''/p'' \<noteq> None"
    by code_simp
  have c: "CHR ''f'' \<noteq> CHR ''/''" by simp
  have t: "resolveAliasImport ''/p'' ''@/components/my-button.vue'' twoAliases ''/p''
        = Some ''/p/src/components/my-button.vue''" by code_simp
  from alias_lookup_prefix_exact[of "''/p''" "''@/components/my-button.vue''" DEFAULT_ALIASES "''/p''"
      "CHR ''f''" "''oo/bar''" "''src''"] h c
  have p1: "\<exists>(a, p)\<in>set DEFAULT_ALIASES. ''@/components/my-button.vue'' = a
        \<or> startsWith ''@/components/my-button.vue'' (if endsWith a ''/'' then a else a @ ''/'')"
    and p2: "resolveAliasImport ''/p'' ''@foo/bar'' [(''@'', ''src'')] ''/p'' = None"
    by blast+
  from alias_lookup_prefix_exact[of "''/p''" "''@/components/my-button.vue''" twoAliases "''/p''"
      "CHR ''f''" "''oo/bar''" "''src''" "[(''~'', ''lib'')]" "[]"] t c
  have p3: "\<exists>before a p after. twoAliases = before @ (a, p) # after
          \<and> (\<forall>(a', p'')\<in>set before. \<not> aliasApplies ''@/components/my-button.vue'' a')
          \<and> aliasApplies ''@/components/my-button.vue'' a
          \<and> ''/p/src/components/my-button.vue''
               = resolve ''/p'' [''/p'', p, aliasRemainder ''@/components/my-button.vue'' a]"
    and p4: "resolveAliasImport ''/p'' ''@foo/bar'' ([(''~'', ''lib'')] @ (''@'', ''src'') # []) ''/p''
       = resolveAliasImport ''/p'' ''@foo/bar'' ([(''~'', ''lib'')] @ []) ''/p''"
    by blast+
  from h p1 c p2 t p3 p4 show ?thesis by (intro conjI)
qed

section \<open>The plan builder\<close>

text \<open>
  C3, as stated, fails: with \<open>my-button.vue\<close> and \<open>MyButton.vue\<close> both on the disk, the plan
  holds the mapping whose new path is the file that exists.
\<close>

theorem plan_keeps_existing_target_counterexample:
  "createMappingsFromFiles collisionDisk [''/p/my-button.vue'']
     = [\<lparr>oldPath = ''/p/my-button.vue'', newPath = ''/p/MyButton.vue'',
          oldName = ''my-button.vue'', newName = ''MyButton.vue''\<rparr>]
   \<and> collisionDisk ''/p/MyButton.vue'' \<noteq> None"
  by code_simp


text \<open>
  C3, amended. The plan builder never looks at the new path. \<open>createMappingsFromFiles\<close> keeps,
  in order, the candidates that exist on the disk and have a kebab-case file name, and
  its result does not change when a file appears at a path that is not a candidate;
  \<open>findKebabCaseFiles\<close> keeps the kebab-case names among what \<open>glob\<close> returns. Every mapping
  is the one computed from its old path.
\<close>

theorem plan_ignores_target:
  "map oldPath (createMappingsFromFiles disk files)
     = filter (\<lambda>f. disk f \<noteq> None \<and> isKebabCase (basename f)) files
   \<and> (\<forall>m\<in>set (createMappingsFromFiles disk files). m = mappingOf (oldPath m))
   \<and> (p \<notin> set files \<longrightarrow>
        createMappingsFromFiles (disk(p \<mapsto> c)) files = createMappingsFromFiles disk files)
   \<and> findKebabCaseFiles env disk dir cwdOpt ignoreOpt
       = map mappingOf (filter (\<lambda>f. isKebabCase (basename f))
           (glob env ''**/*.vue''
              (resolve (processCwd env) [case cwdOpt of None \<Rightarrow> processCwd env | Some c \<Rightarrow> c, dir])
              (case ignoreOpt of None \<Rightarrow> DEFAULT_IGNORE | Some i \<Rightarrow> i) disk))"
proof -
  have a: "map oldPath (createMappingsFromFiles disk files)
     = filter (\<lambda>f. disk f \<noteq> None \<and> isKebabCase (basename f)) files"
    by (simp add: createMappingsFromFiles_def kebabMappings_eq comp_def mappingOf_oldPath
        conj_commute)
  have b: "\<forall>m\<in>set (createMappingsFromFiles disk files). m = mappingOf (oldPath m)"
    by (auto simp: createMappingsFromFiles_def kebabMappings_eq mappingOf_oldPath)
  have c: "createMappingsFromFiles (disk(p \<mapsto> c)) files = createMappingsFromFiles disk files"
    if "p \<notin> set files"
  proof -
    have "filter (\<lambda>filePath. (disk(p \<mapsto> c)) filePath \<noteq> None) files
            = filter (\<lambda>filePath. disk filePath \<noteq> None) files"
      using that by (intro filter_cong) auto
    then show ?thesis by (simp add: createMappingsFromFiles_def)
  qed
  have d: "findKebabCaseFiles env disk dir cwdOpt ignoreOpt
       = map mappingOf (filter (\<lambda>f. isKebabCase (basename f))
           (glob env ''**/*.vue''
              (resolve (processCwd env) [case cwdOpt of None \<Rightarrow> processCwd env | Some c \<Rightarrow> c, dir])
              (case ignoreOpt of None \<Rightarrow> DEFAULT_IGNORE | Some i \<Rightarrow> i) disk))"
    by (simp add: findKebabCaseFiles_def Let_def kebabMappings_eq)
  from a b c d show ?thesis by blast
qed


theorem plan_ignores_target_witness:
  "''/p/MyButton.vue'' \<notin> set [''/p/my-button.vue'']
   \<and> createMappingsFromFiles ((\<lambda>p. if p = ''/p/my-button.vue'' then Some emptyFile else None)
         (''/p/MyButton.vue'' \<mapsto> emptyFile)) [''/p/my-button.vue'']
      = createMappingsFromFiles (\<lambda>p. if p = ''/p/my-button.vue'' then Some emptyFile else None)
          [''/p/my-button.vue'']
   \<and> createMappingsFromFiles (\<lambda>p. if p = ''/p/my-button.vue'' then Some emptyFile else None)
          [''/p/my-button.vue'']
      = [\<lparr>oldPath = ''/p/my-button.vue'', newPath = ''/p/MyButton.vue'',
          oldName = ''my-button.vue'', newName = ''MyButton.vue''\<rparr>]"
proof -
  have h: "''/p/MyButton.vue'' \<notin> set [''/p/my-button.vue'']" by simp
  have v: "createMappingsFromFiles (\<lambda>p. if p = ''/p/my-button.vue'' then Some emptyFile else None)
          [''/p/my-button.vue'']
      = [\<lparr>oldPath = ''/p/my-button.vue'', newPath = ''/p/MyButton.vue'',
          oldName = ''my-button.vue'', newName = ''MyButton.vue''\<rparr>]" by code_simp
  from plan_ignores_target[of "\<lambda>p. if p = ''/p/my-button.vue'' then Some emptyFile else None"
      "[''/p/my-button.vue'']" "''/p/MyButton.vue''" emptyFile] h
  have "createMappingsFromFiles ((\<lambda>p. if p = ''/p/my-button.vue'' then Some emptyFile else None)
         (''/p/MyButton.vue'' \<mapsto> emptyFile)) [''/p/my-button.vue'']
      = createMappingsFromFiles (\<lambda>p. if p = ''/p/my-button.vue'' then Some emptyFile else None)
          [''/p/my-button.vue'']"
    by blast
  with h v show ?thesis by (intro conjI)
qed

section \<open>Applying the updates\<close>

lemma map_of_groupByFile:
  "map_of (groupByFile acc us) f =
     (case map_of acc f of
        None \<Rightarrow> if updatesOfFile f us = [] then None else Some (updatesOfFile f us)
      | Some existing \<Rightarrow> Some (existing @ updatesOfFile f us))"
proof (induction us arbitrary: acc)
  case Nil
  then show ?case by (simp add: updatesOfFile_def split: option.splits)
next
  case (Cons u us)
  show ?case
  proof (cases "map_of acc (file' u)")
    case None
    then show ?thesis
      using Cons.IH[of "acc @ [(file' u, [u])]"]
      by (auto simp: updatesOfFile_def map_add_def split: option.splits)
  next
    case (Some existing)
    then show ?thesis
      using Cons.IH[of "AList.update (file' u) (existing @ [u]) acc"]
      by (auto simp: updatesOfFile_def update_conv' split: option.splits)
  qed
qed

lemma distinct_groupByFile:
  "distinct (map fst acc) \<Longrightarrow> distinct (map fst (groupByFile acc us))"
proof (induction us arbitrary: acc)
  case Nil
  then show ?case by simp
next
  case (Cons u us)
  show ?case
  proof (cases "map_of acc (file' u)")
    case None
    then have "file' u \<notin> fst ` set acc" by (simp add: map_of_eq_None_iff)
    with Cons.prems have "distinct (map fst (acc @ [(file' u, [u])]))" by simp
    from Cons.IH[OF this] None show ?thesis by simp
  next
    case (Some existing)
    from Cons.prems have "distinct (map fst (AList.update (file' u) (existing @ [u]) acc))"
      by (rule distinct_update)
    from Cons.IH[OF this] Some show ?thesis by simp
  qed
qed

lemma update_existing_keys:
  "map_of al k = Some x \<Longrightarrow> map fst (AList.update k v al) = map fst al"
  by (induction al) (auto split: if_splits)

lemma applyGroups_keys: "map fst (applyGroups project groups) = map fst project"
proof (induction groups arbitrary: project)
  case Nil
  then show ?case by simp
next
  case (Cons g groups)
  obtain fp ups where g: "g = (fp, ups)" by (cases g)
  show ?case
  proof (cases "map_of project fp")
    case None
    then show ?thesis using Cons.IH[of project] by (simp add: g getSourceFile_def)
  next
    case (Some c)
    then show ?thesis
      using Cons.IH[of "AList.update fp (applyFileUpdates ups c) project"]
      by (simp add: g getSourceFile_def update_existing_keys)
  qed
qed

lemma map_of_applyGroups:
  "distinct (map fst groups) \<Longrightarrow>
   map_of (applyGroups project groups) f =
     (case map_of project f of
        None \<Rightarrow> None
      | Some c \<Rightarrow> (case map_of groups f of None \<Rightarrow> Some c | Some ups \<Rightarrow> Some (applyFileUpdates ups c)))"
proof (induction groups arbitrary: project)
  case Nil
  then show ?case by (simp split: option.splits)
next
  case (Cons g groups)
  obtain fp ups where g: "g = (fp, ups)" by (cases g)
  from Cons.prems have d: "distinct (map fst groups)" and nf: "fp \<notin> fst ` set groups"
    by (simp_all add: g)
  from nf have none: "map_of groups fp = None" by (simp add: map_of_eq_None_iff)
  show ?case
  proof (cases "map_of project fp")
    case None
    then show ?thesis using Cons.IH[OF d, of project]
      by (auto simp: g getSourceFile_def split: option.splits)
  next
    case (Some c)
    then show ?thesis
      using Cons.IH[OF d, of "AList.update fp (applyFileUpdates ups c) project"] none
      by (auto simp: g getSourceFile_def update_conv' split: option.splits)
  qed
qed

lemma applyFileUpdates_Nil: "applyFileUpdates [] c = c"
proof -
  have "map (applyToImport []) xs = xs" for xs
    by (induction xs) (simp_all add: applyToImport_def findUpdate_def)
  moreover have "map (applyToCall []) xs = xs" for xs
    by (induction xs) (simp_all add: applyToCall_def findUpdate_def split: list.splits)
  moreover have "map (applyToExport []) xs = xs" for xs
    by (induction xs) (simp_all add: applyToExport_def findUpdate_def split: option.splits)
  ultimately show ?thesis by (simp add: applyFileUpdates_def)
qed

lemma getSourceFile_applyImportUpdates:
  "getSourceFile (applyImportUpdates project us) f
     = map_option (applyFileUpdates (updatesOfFile f us)) (getSourceFile project f)"
proof -
  have d: "distinct (map fst (groupByFile [] us))" by (rule distinct_groupByFile) simp
  show ?thesis
    unfolding applyImportUpdates_def getSourceFile_def map_of_applyGroups[OF d]
    by (simp add: map_of_groupByFile applyFileUpdates_Nil split: option.splits)
qed

lemma applyImportUpdates_keys: "map fst (applyImportUpdates project us) = map fst project"
  by (simp add: applyImportUpdates_def applyGroups_keys)

lemma alist_eqI:
  "distinct (map fst xs) \<Longrightarrow> map fst xs = map fst ys \<Longrightarrow> map_of xs = map_of ys \<Longrightarrow> xs = ys"
proof (induction xs arbitrary: ys)
  case Nil
  then show ?case by simp
next
  case (Cons x xs)
  from Cons.prems(2) obtain y ys' where ys: "ys = y # ys'" and k: "fst x = fst y"
    and ks: "map fst xs = map fst ys'" by (cases ys) auto
  from Cons.prems(3) ys have m: "map_of (x # xs) a = map_of (y # ys') a" for a by metis
  from m[of "fst x"] k have xy: "x = y" by (cases x, cases y) auto
  have "map_of xs = map_of ys'"
  proof
    fix a
    show "map_of xs a = map_of ys' a"
    proof (cases "a = fst x")
      case True
      with Cons.prems(1) ks have "a \<notin> fst ` set xs" "a \<notin> fst ` set ys'"
        by (auto simp flip: set_map)
      then have "map_of xs a = None" and "map_of ys' a = None"
        by (simp_all add: map_of_eq_None_iff)
      then show ?thesis by simp
    next
      case False
      from m[of a] False xy show ?thesis by (cases y) auto
    qed
  qed
  with Cons.IH[of ys'] Cons.prems(1) ks have "xs = ys'" by simp
  with xy ys show ?case by simp
qed

lemma find_skip: "\<not> Q u \<Longrightarrow> find Q (xs @ u # ys) = find Q (xs @ ys)"
  by (induction xs) auto


lemma findUpdate_skip:
  "oldImport u \<noteq> sp \<Longrightarrow> findUpdate (us1 @ u # us2) sp = findUpdate (us1 @ us2) sp"
  by (simp add: findUpdate_def find_skip)

lemma applyFileUpdates_skip:
  assumes "oldImport u \<notin> set (currentSpecifiers c)"
  shows "applyFileUpdates (us1 @ u # us2) c = applyFileUpdates (us1 @ us2) c"
proof -
  have i: "applyToImport (us1 @ u # us2) d = applyToImport (us1 @ us2) d"
    if "d \<in> set (importDeclarations c)" for d
  proof -
    from that assms have "oldImport u \<noteq> fst d" by (auto simp: currentSpecifiers_def)
    then show ?thesis by (simp add: applyToImport_def findUpdate_skip)
  qed
  have e: "applyToCall (us1 @ u # us2) x = applyToCall (us1 @ us2) x"
    if "x \<in> set (callExpressions c)" for x
  proof (cases "expression x = ''import'' \<and> arguments x \<noteq> []")
    case True
    with that assms have "oldImport u \<noteq> slice1 (hd (arguments x))"
      by (auto simp: currentSpecifiers_def)
    with True show ?thesis
      by (cases "arguments x") (simp_all add: applyToCall_def findUpdate_skip)
  next
    case False
    then show ?thesis by (auto simp: applyToCall_def split: list.splits)
  qed
  have x: "applyToExport (us1 @ u # us2) d = applyToExport (us1 @ us2) d"
    if "d \<in> set (exportDeclarations c)" for d
  proof (cases "fst d")
    case None
    then show ?thesis by (simp add: applyToExport_def)
  next
    case (Some sp)
    with that assms have "oldImport u \<noteq> sp" by (force simp: currentSpecifiers_def)
    with Some show ?thesis by (simp add: applyToExport_def findUpdate_skip)
  qed
  from i e x show ?thesis by (simp add: applyFileUpdates_def)
qed

lemma applyFileUpdates_unrecoverable:
  assumes "\<forall>v\<in>set us. oldImport v \<notin> set (currentSpecifiers c)"
  shows "applyFileUpdates us c = c"
  using assms
proof (induction us)
  case Nil
  then show ?case by (simp add: applyFileUpdates_Nil)
next
  case (Cons v us)
  then have "applyFileUpdates ([] @ v # us) c = applyFileUpdates ([] @ us) c"
    by (intro applyFileUpdates_skip) simp
  with Cons show ?case by simp
qed


text \<open>
  C9. In a project with one source file per path, an update whose old specifier is none of
  the specifier texts of its file, or whose file is not in the project, has no effect:
  the outcome is the one of the update list without it. If that holds for every update
  of the file, the file is left as it was.
\<close>

theorem unrecoverable_update_is_skipped:
  assumes one_per_path: "distinct (map fst project)"
    and unrecoverable:
      "case getSourceFile project (file' u) of
         None \<Rightarrow> True
       | Some c \<Rightarrow> oldImport u \<notin> set (currentSpecifiers c)"
  shows "applyImportUpdates project (us1 @ u # us2) = applyImportUpdates project (us1 @ us2)
       \<and> ((\<forall>v\<in>set (us1 @ u # us2). file' v = file' u \<longrightarrow>
              (case getSourceFile project (file' u) of
                 None \<Rightarrow> True
               | Some c \<Rightarrow> oldImport v \<notin> set (currentSpecifiers c)))
           \<longrightarrow> getSourceFile (applyImportUpdates project (us1 @ u # us2)) (file' u)
                 = getSourceFile project (file' u))"
proof -
  let ?A = "applyImportUpdates project (us1 @ u # us2)"
  let ?B = "applyImportUpdates project (us1 @ us2)"
  have "getSourceFile ?A f = getSourceFile ?B f" for f
  proof (cases "getSourceFile project f")
    case None
    then show ?thesis by (simp add: getSourceFile_applyImportUpdates)
  next
    case (Some c)
    show ?thesis
    proof (cases "file' u = f")
      case True
      with Some unrecoverable have "oldImport u \<notin> set (currentSpecifiers c)" by simp
      from applyFileUpdates_skip[OF this, of "updatesOfFile f us1" "updatesOfFile f us2"]
      have "applyFileUpdates (updatesOfFile f (us1 @ u # us2)) c
              = applyFileUpdates (updatesOfFile f (us1 @ us2)) c"
        using True by (simp add: updatesOfFile_def)
      with Some show ?thesis by (simp add: getSourceFile_applyImportUpdates)
    next
      case False
      then have "updatesOfFile f (us1 @ u # us2) = updatesOfFile f (us1 @ us2)"
        by (simp add: updatesOfFile_def)
      with Some show ?thesis by (simp add: getSourceFile_applyImportUpdates)
    qed
  qed
  then have "map_of ?A = map_of ?B" by (auto simp: getSourceFile_def)
  moreover have "map fst ?A = map fst ?B" by (simp add: applyImportUpdates_keys)
  moreover have "distinct (map fst ?A)" using one_per_path by (simp add: applyImportUpdates_keys)
  ultimately have eq: "?A = ?B" by (intro alist_eqI)
  have "getSourceFile ?A (file' u) = getSourceFile project (file' u)"
    if all: "\<forall>v\<in>set (us1 @ u # us2). file' v = file' u \<longrightarrow>
              (case getSourceFile project (file' u) of
                 None \<Rightarrow> True
               | Some c \<Rightarrow> oldImport v \<notin> set (currentSpecifiers c))"
  proof (cases "getSourceFile project (file' u)")
    case None
    then show ?thesis by (simp add: getSourceFile_applyImportUpdates)
  next
    case (Some c)
    with all have "\<forall>v\<in>set (updatesOfFile (file' u) (us1 @ u # us2)).
        oldImport v \<notin> set (currentSpecifiers c)"
      by (auto simp: updatesOfFile_def)
    from applyFileUpdates_unrecoverable[OF this] Some show ?thesis
      by (simp add: getSourceFile_applyImportUpdates)
  qed
  with eq show ?thesis by blast
qed

theorem unrecoverable_update_is_skipped_witness:
  "distinct (map fst [componentsIndex])
   \<and> oldImport driftedUpdate \<notin> set (currentSpecifiers (snd componentsIndex))
   \<and> applyImportUpdates [componentsIndex] [driftedUpdate, validUpdate]
       = applyImportUpdates [componentsIndex] [validUpdate]
   \<and> getSourceFile (applyImportUpdates [componentsIndex] [driftedUpdate]) (file' driftedUpdate)
       = getSourceFile [componentsIndex] (file' driftedUpdate)"
proof -
  have d: "distinct (map fst [componentsIndex])" by simp
  have c: "getSourceFile [componentsIndex] (file' driftedUpdate) = Some (snd componentsIndex)"
    by code_simp
  have n: "oldImport driftedUpdate \<notin> set (currentSpecifiers (snd componentsIndex))"
    by code_simp
  have h: "case getSourceFile [componentsIndex] (file' driftedUpdate) of
         None \<Rightarrow> True
       | Some c \<Rightarrow> oldImport driftedUpdate \<notin> set (currentSpecifiers c)"
    unfolding c using n by simp
  from unrecoverable_update_is_skipped[OF d h, of "[]" "[validUpdate]"]
  have a: "applyImportUpdates [componentsIndex] [driftedUpdate, validUpdate]
       = applyImportUpdates [componentsIndex] [validUpdate]"
    unfolding append_Nil by blast
  have all: "\<forall>v\<in>set ([] @ driftedUpdate # []). file' v = file' driftedUpdate \<longrightarrow>
              (case getSourceFile [componentsIndex] (file' driftedUpdate) of
                 None \<Rightarrow> True
               | Some c \<Rightarrow> oldImport v \<notin> set (currentSpecifiers c))"
    by (simp add: c n)
  from unrecoverable_update_is_skipped[OF d h, of "[]" "[]"] all
  have b: "getSourceFile (applyImportUpdates [componentsIndex] [driftedUpdate]) (file' driftedUpdate)
       = getSourceFile [componentsIndex] (file' driftedUpdate)"
    unfolding append_Nil by blast
  from d n a b show ?thesis by (intro conjI)
qed

section \<open>The orchestrator\<close>

text \<open>
  C4. A dry run leaves the disk as it is and returns a result; every run on the same
  initial state that is not a dry run and returns a result returns the same mappings and
  import updates (the same result, but for the dry-run flag).
\<close>

theorem dry_run_changes_nothing:
  "fst (renameVueFiles env (options\<lparr>dryRun := Some True\<rparr>) disk) = disk
   \<and> (\<exists>r. snd (renameVueFiles env (options\<lparr>dryRun := Some True\<rparr>) disk) = Inr r
        \<and> wasDryRun r
        \<and> (\<forall>d r'. d \<noteq> Some True
              \<and> snd (renameVueFiles env (options\<lparr>dryRun := d\<rparr>) disk) = Inr r'
            \<longrightarrow> mappings r' = mappings r \<and> importUpdates r' = importUpdates r
                \<and> r' = r\<lparr>wasDryRun := False\<rparr>))"
proof -
  let ?cwd = "case cwd options of None \<Rightarrow> processCwd env | Some c \<Rightarrow> c"
  let ?exts = "case extensions options of None \<Rightarrow> DEFAULT_EXTENSIONS | Some e \<Rightarrow> e"
  let ?ign = "case ignore options of None \<Rightarrow> DEFAULT_IGNORE | Some i \<Rightarrow> i"
  let ?git = "case useGitMv options of None \<Rightarrow> True | Some g \<Rightarrow> g"
  let ?auto = "case autoDetectAliases options of None \<Rightarrow> True | Some a \<Rightarrow> a"
  let ?target = "resolve (processCwd env) [?cwd, targetDir options]"
  let ?scan = "case importScanDir options of
                 None \<Rightarrow> ?target
               | Some d \<Rightarrow> if d \<noteq> [] then resolve (processCwd env) [?cwd, d] else ?target"
  let ?al = "case aliases options of
               Some provided \<Rightarrow> provided
             | None \<Rightarrow> if ?auto then getProjectAliases env ?cwd DEFAULT_ALIASES disk
                       else DEFAULT_ALIASES"
  let ?ms = "findKebabCaseFiles env disk ?target (Some ''/'') (Some ?ign)"
  let ?stats = "collectFileStats env disk ?ms"
  let ?project = "loadProject env disk ?scan ?exts ?ign"
  let ?updates = "findImportUpdates (processCwd env) ?project ?ms (Some ?al) (Some ?cwd)"
  let ?empty = "\<lambda>dry. \<lparr>mappings = [], fileStats = [], importUpdates = [],
                       summary = \<lparr>totalFiles = 0, totalLines = 0, totalSize = 0, totalImports = 0\<rparr>,
                       wasDryRun = dry\<rparr>"
  let ?result = "\<lambda>dry. \<lparr>mappings = ?ms, fileStats = ?stats, importUpdates = ?updates,
                         summary = \<lparr>totalFiles = length ?ms,
                                     totalLines = foldl (\<lambda>sum f. sum + lines f) 0 ?stats,
                                     totalSize = foldl (\<lambda>sum f. sum + size' f) 0 ?stats,
                                     totalImports = length ?updates\<rparr>,
                         wasDryRun = dry\<rparr>"
  let ?moved = "renameAll env ?git ?ms (saveProject (applyImportUpdates ?project ?updates) disk)"
  let ?flag = "\<lambda>d. case d of None \<Rightarrow> False | Some b \<Rightarrow> b"
  have run: "renameVueFiles env (options\<lparr>dryRun := d\<rparr>) disk =
      (if length ?ms = 0 then (disk, Inr (?empty (?flag d)))
       else if \<not> ?flag d then
         (case ?moved of (disk', Some e) \<Rightarrow> (disk', Inl e)
                       | (disk', None) \<Rightarrow> (disk', Inr (?result (?flag d))))
       else (disk, Inr (?result (?flag d))))" for d
    by (simp add: renameVueFiles_def Let_def cong: if_weak_cong)
  define r where "r = (if length ?ms = 0 then ?empty True else ?result True)"
  have dry: "renameVueFiles env (options\<lparr>dryRun := Some True\<rparr>) disk = (disk, Inr r)"
    unfolding run r_def by simp
  have w: "wasDryRun r" unfolding r_def by simp
  have eq: "r' = r\<lparr>wasDryRun := False\<rparr>"
    if d: "d \<noteq> Some True" and s: "snd (renameVueFiles env (options\<lparr>dryRun := d\<rparr>) disk) = Inr r'"
    for d r'
  proof -
    from d have nd: "?flag d = False" by (cases d) auto
    show ?thesis
    proof (cases "length ?ms = 0")
      case True
      with s show ?thesis unfolding run r_def nd by simp
    next
      case False
      obtain disk' eo where m: "?moved = (disk', eo)" by (cases ?moved)
      from s False have "(case eo of Some e \<Rightarrow> Inl e | None \<Rightarrow> Inr (?result False)) = Inr r'"
        unfolding run nd m by (cases eo) simp_all
      then have "r' = ?result False" by (cases eo) simp_all
      with False show ?thesis unfolding r_def by simp
    qed
  qed
  have "\<forall>d r'. d \<noteq> Some True
              \<and> snd (renameVueFiles env (options\<lparr>dryRun := d\<rparr>) disk) = Inr r'
            \<longrightarrow> mappings r' = mappings r \<and> importUpdates r' = importUpdates r
                \<and> r' = r\<lparr>wasDryRun := False\<rparr>"
  proof (intro allI impI)
    fix d r'
    assume "d \<noteq> Some True
              \<and> snd (renameVueFiles env (options\<lparr>dryRun := d\<rparr>) disk) = Inr r'"
    then have "r' = r\<lparr>wasDryRun := False\<rparr>" using eq by blast
    then show "mappings r' = mappings r \<and> importUpdates r' = importUpdates r
                \<and> r' = r\<lparr>wasDryRun := False\<rparr>" by simp
  qed
  with dry w show ?thesis by simp
qed

theorem dry_run_changes_nothing_witness:
  "snd (renameVueFiles exampleEnv (exampleOptions\<lparr>dryRun := Some False\<rparr>) exampleDisk)
     = Inr exampleResult
   \<and> fst (renameVueFiles exampleEnv (exampleOptions\<lparr>dryRun := Some False\<rparr>) exampleDisk)
        ''/p/src/components/my-button.vue'' = None
   \<and> fst (renameVueFiles exampleEnv (exampleOptions\<lparr>dryRun := Some True\<rparr>) exampleDisk)
     = exampleDisk
   \<and> snd (renameVueFiles exampleEnv (exampleOptions\<lparr>dryRun := Some True\<rparr>) exampleDisk)
     = Inr (exampleResult\<lparr>wasDryRun := True\<rparr>)"
proof -
  have real: "snd (renameVueFiles exampleEnv (exampleOptions\<lparr>dryRun := Some False\<rparr>) exampleDisk)
     = Inr exampleResult" by code_simp
  have moved: "fst (renameVueFiles exampleEnv (exampleOptions\<lparr>dryRun := Some False\<rparr>) exampleDisk)
        ''/p/src/components/my-button.vue'' = None" by code_simp
  from dry_run_changes_nothing[of exampleEnv exampleOptions exampleDisk]
  obtain r where f: "fst (renameVueFiles exampleEnv (exampleOptions\<lparr>dryRun := Some True\<rparr>) exampleDisk)
     = exampleDisk"
    and r: "snd (renameVueFiles exampleEnv (exampleOptions\<lparr>dryRun := Some True\<rparr>) exampleDisk) = Inr r"
    and w: "wasDryRun r"
    and all: "\<forall>d r'. d \<noteq> Some True
              \<and> snd (renameVueFiles exampleEnv (exampleOptions\<lparr>dryRun := d\<rparr>) exampleDisk) = Inr r'
            \<longrightarrow> mappings r' = mappings r \<and> importUpdates r' = importUpdates r
                \<and> r' = r\<lparr>wasDryRun := False\<rparr>"
    by blast
  have "Some False \<noteq> Some True" by simp
  with all real have "exampleResult = r\<lparr>wasDryRun := False\<rparr>" by blast
  then have "exampleResult\<lparr>wasDryRun := True\<rparr> = r\<lparr>wasDryRun := False, wasDryRun := True\<rparr>"
    by (rule arg_cong)
  also have "\<dots> = r" using w by (cases r) simp
  finally have "snd (renameVueFiles exampleEnv (exampleOptions\<lparr>dryRun := Some True\<rparr>) exampleDisk)
     = Inr (exampleResult\<lparr>wasDryRun := True\<rparr>)" using r by simp
  with real moved f show ?thesis by (intro conjI)
qed


end
